theory Spec2Isabelle
  imports Complex_Main "HOL-Library.Word"
begin

section \<open>Data model of \<^verbatim>\<open>examples/math_st.c\<close>\<close>

text \<open>
  The C type \<^verbatim>\<open>int\<close> is a 32-bit two's complement word, read with \<open>sint\<close>.
  The two parameter blocks are records. Their fields carry the prefix \<open>param_\<close>
  (\<^verbatim>\<open>param->x\<close>, \<^verbatim>\<open>param->text\<close>, \<^verbatim>\<open>param->value\<close>).
  The array \<^verbatim>\<open>char text[81]\<close> is a type of its own: the lists of exactly 81 bytes,
  terminator and the bytes after it included; \<open>bytes\<close> gives the list.
\<close>

type_synonym c_int = "32 word"

definition text_capacity :: nat where
  "text_capacity = 81"

definition NUL :: char where
  "NUL = CHR 0x00"

typedef text_buffer = "{cs :: char list. length cs = text_capacity}"
  morphisms bytes Abs_text_buffer
  by (rule exI [of _ "replicate text_capacity NUL"]) simp

setup_lifting type_definition_text_buffer

record MYLOG_interface =
  param_x :: c_int

record MYPRINTF_interface =
  param_text :: text_buffer
  param_value :: c_int

text \<open>
  Both functions receive a pointer to their parameter block and write to the standard
  output stream. The state of a call is therefore the block the pointer refers to together
  with the stream; a call returns its \<^verbatim>\<open>int\<close> result and the state it leaves.
  The stream records the characters transmitted to it so far and whether the output
  operations on it succeed; a stream on which they fail returns the error to the caller
  and takes no character. Whether they succeed is a property of the stream that no call
  changes.
\<close>

record stream =
  written :: string
  accepting :: bool

record 'p state =
  param :: 'p
  stdout :: stream

section \<open>The C library, as far as the two functions use it\<close>

text \<open>
  A call either returns or the C standard leaves its behaviour undefined:
  \<^item> \<open>NotTerminated\<close>: the array holds no terminating zero byte, so reading the string
    runs past its end;
  \<^item> \<open>IncompleteDirective\<close>: the format ends inside a conversion specification;
  \<^item> \<open>InvalidDirective\<close>: a conversion specification that C11 7.21.6.1 does not
    define (an unknown conversion, a flag, precision or length modifier that the
    conversion does not take);
  \<^item> \<open>MissingArgument\<close>: a directive asks for an argument and none is left
    (C11 7.21.6.1, paragraph 2);
  \<^item> \<open>ArgumentMismatch\<close>: a directive asks for an argument of another type than the
    \<^verbatim>\<open>int\<close> it is given (C11 7.21.6.1, paragraph 9);
  \<^item> \<open>CountOverflow\<close>: the output has more characters than the \<^verbatim>\<open>int\<close> that
    \<^verbatim>\<open>printf\<close> returns can count; C11 7.21.6.3 does not say what is returned then.
\<close>

datatype fault =
  NotTerminated | IncompleteDirective | InvalidDirective | MissingArgument | ArgumentMismatch
  | CountOverflow

datatype 'a outcome = Returns 'a | Undefined fault

definition newline :: char where
  "newline = CHR 0x0A"

text \<open>The string that starts at the first of the given bytes, and the string an array holds.\<close>

definition c_string_bytes :: "string \<Rightarrow> string outcome" where
  "c_string_bytes buf =
     (if NUL \<in> set buf then Returns (takeWhile (\<lambda>c. c \<noteq> NUL) buf) else Undefined NotTerminated)"

definition c_string :: "text_buffer \<Rightarrow> string outcome" where
  "c_string t = c_string_bytes (bytes t)"

text \<open>
  An array initialised from a string literal: the literal, then zero bytes up to the
  capacity. A literal of 81 characters fills the array and leaves no terminator; a longer
  one does not compile in C and is cut to the capacity here.
\<close>

lift_definition text_of :: "string \<Rightarrow> text_buffer" is
  "\<lambda>lit. take text_capacity (lit @ replicate text_capacity NUL)"
  by simp

subsection \<open>Numbers in decimal, octal and hexadecimal\<close>

definition digit :: "nat \<Rightarrow> char" where
  "digit d = ''0123456789'' ! d"

fun decimal :: "nat \<Rightarrow> string" where
  "decimal n = (if n < 10 then [digit n] else decimal (n div 10) @ [digit (n mod 10)])"

declare decimal.simps [simp del]

definition conv_d :: "c_int \<Rightarrow> string" where
  "conv_d v = (if sint v < 0 then CHR ''-'' # decimal (nat (- sint v)) else decimal (nat (sint v)))"

fun octal :: "nat \<Rightarrow> string" where
  "octal n = (if n < 8 then [digit n] else octal (n div 8) @ [digit (n mod 8)])"

declare octal.simps [simp del]

fun hexadecimal :: "string \<Rightarrow> nat \<Rightarrow> string" where
  "hexadecimal ds n = (if n < 16 then [ds ! n] else hexadecimal ds (n div 16) @ [ds ! (n mod 16)])"

declare hexadecimal.simps [simp del]

subsection \<open>Conversion specifications\<close>

text \<open>
  Modelled from the C standard (C11 7.21.6.1), \<^verbatim>\<open>printf\<close> being the C library's and
  not this repository's. A conversion specification is a \<^verbatim>\<open>%\<close>, flags, an optional
  field width, an optional precision, an optional length modifier and the conversion.
  Every argument is an \<^verbatim>\<open>int\<close>, so the conversions with a defined result are
  \<^verbatim>\<open>d i o u x X c\<close> and \<^verbatim>\<open>%%\<close>, and the length modifiers \<^verbatim>\<open>h\<close> and
  \<^verbatim>\<open>hh\<close>.
\<close>

datatype length_modifier = No_modifier | Modifier_h | Modifier_hh

record directive =
  flag_minus :: bool
  flag_plus :: bool
  flag_space :: bool
  flag_hash :: bool
  flag_zero :: bool
  field_width :: nat
  field_precision :: "nat option"
  modifier :: length_modifier

definition plain :: directive where
  "plain = \<lparr>flag_minus = False, flag_plus = False, flag_space = False, flag_hash = False,
            flag_zero = False, field_width = 0, field_precision = None, modifier = No_modifier\<rparr>"

text \<open>
  The digits of a number under a precision: at least that many digits, and none at all
  for the number zero under precision zero.
\<close>

definition with_precision :: "directive \<Rightarrow> nat \<Rightarrow> string \<Rightarrow> string" where
  "with_precision d n ds =
     (case field_precision d of
        None \<Rightarrow> ds
      | Some p \<Rightarrow> if p = 0 \<and> n = 0 then [] else replicate (p - length ds) CHR ''0'' @ ds)"

text \<open>
  Padding to the field width: zeros between prefix and digits under the \<^verbatim>\<open>0\<close> flag
  (which \<^verbatim>\<open>-\<close> and a precision switch off), otherwise spaces, on the right under
  the \<^verbatim>\<open>-\<close> flag and on the left without it.
\<close>

definition pad :: "directive \<Rightarrow> string \<Rightarrow> string \<Rightarrow> string" where
  "pad d pre ds =
     (let fill = field_width d - (length pre + length ds) in
      if flag_zero d \<and> \<not> flag_minus d \<and> field_precision d = None
      then pre @ replicate fill CHR ''0'' @ ds
      else if flag_minus d then pre @ ds @ replicate fill CHR '' ''
      else replicate fill CHR '' '' @ pre @ ds)"

definition signed_argument :: "directive \<Rightarrow> c_int \<Rightarrow> int" where
  "signed_argument d a =
     (case modifier d of
        No_modifier \<Rightarrow> sint a
      | Modifier_h \<Rightarrow> sint (ucast a :: 16 word)
      | Modifier_hh \<Rightarrow> sint (ucast a :: 8 word))"

definition unsigned_argument :: "directive \<Rightarrow> c_int \<Rightarrow> nat" where
  "unsigned_argument d a =
     (case modifier d of
        No_modifier \<Rightarrow> unat a
      | Modifier_h \<Rightarrow> unat (ucast a :: 16 word)
      | Modifier_hh \<Rightarrow> unat (ucast a :: 8 word))"

definition format_signed :: "directive \<Rightarrow> int \<Rightarrow> string" where
  "format_signed d i =
     pad d (if i < 0 then ''-'' else if flag_plus d then ''+'' else if flag_space d then '' '' else [])
       (with_precision d (nat \<bar>i\<bar>) (decimal (nat \<bar>i\<bar>)))"

definition format_unsigned :: "directive \<Rightarrow> char \<Rightarrow> nat \<Rightarrow> string" where
  "format_unsigned d c n =
     (if c = CHR ''o'' then
        (let ds = with_precision d n (octal n) in
         pad d [] (if flag_hash d \<and> (ds = [] \<or> hd ds \<noteq> CHR ''0'') then CHR ''0'' # ds else ds))
      else if c = CHR ''x'' then
        pad d (if flag_hash d \<and> n \<noteq> 0 then ''0x'' else [])
          (with_precision d n (hexadecimal ''0123456789abcdef'' n))
      else if c = CHR ''X'' then
        pad d (if flag_hash d \<and> n \<noteq> 0 then ''0X'' else [])
          (with_precision d n (hexadecimal ''0123456789ABCDEF'' n))
      else pad d [] (with_precision d n (decimal n)))"

definition format_char :: "directive \<Rightarrow> c_int \<Rightarrow> string" where
  "format_char d a = pad d [] [char_of (unat a)]"

subsection \<open>Reading a format\<close>

text \<open>
  The format is read one character at a time. Outside a conversion specification a
  character is copied, and \<^verbatim>\<open>%\<close> opens a specification. Inside one, the phase says
  which parts have been read; the conversion character closes the specification, takes
  the next argument and writes it. An asterisk takes its field width or precision from
  the next argument. Arguments left over at the end are ignored.
\<close>

datatype phase =
  After_percent | In_flags | In_width | After_width | After_dot | In_precision
  | After_precision | After_h | After_hh

datatype mode = Text | Directive phase directive

datatype step = Go string mode "c_int list" | Stop fault

definition is_digit :: "char \<Rightarrow> bool" where
  "is_digit c = (c \<in> set ''0123456789'')"

definition digit_value :: "char \<Rightarrow> nat" where
  "digit_value c = of_char c - 48"

text \<open>
  What a conversion writes for its argument; none where C11 leaves the combination of
  flags, precision and length modifier with the conversion undefined.
\<close>

definition render :: "directive \<Rightarrow> char \<Rightarrow> c_int \<Rightarrow> string option" where
  "render d c a =
     (if c = CHR ''d'' \<or> c = CHR ''i'' then
        (if flag_hash d then None else Some (format_signed d (signed_argument d a)))
      else if c = CHR ''c'' then
        (if flag_hash d \<or> flag_zero d \<or> field_precision d \<noteq> None \<or> modifier d \<noteq> No_modifier
         then None else Some (format_char d a))
      else
        (if c = CHR ''u'' \<and> flag_hash d then None
         else Some (format_unsigned d c (unsigned_argument d a))))"

definition conversion :: "phase \<Rightarrow> directive \<Rightarrow> char \<Rightarrow> c_int list \<Rightarrow> step" where
  "conversion ph d c args =
     (if c = CHR ''%'' then (if ph = After_percent then Go ''%'' Text args else Stop InvalidDirective)
      else if c \<in> set ''diouxXc'' then
        (case args of
           [] \<Rightarrow> Stop MissingArgument
         | a # rest \<Rightarrow>
             (case render d c a of
                None \<Rightarrow> Stop InvalidDirective
              | Some out \<Rightarrow> Go out Text rest))
      else if c \<in> set ''sneEfFgGaAp'' then
        (case args of [] \<Rightarrow> Stop MissingArgument | a # rest \<Rightarrow> Stop ArgumentMismatch)
      else Stop InvalidDirective)"

definition in_directive :: "phase \<Rightarrow> directive \<Rightarrow> char \<Rightarrow> c_int list \<Rightarrow> step" where
  "in_directive ph d c args =
     (if (ph = After_percent \<or> ph = In_flags) \<and> c = CHR ''-'' then
        Go [] (Directive In_flags (d\<lparr>flag_minus := True\<rparr>)) args
      else if (ph = After_percent \<or> ph = In_flags) \<and> c = CHR ''+'' then
        Go [] (Directive In_flags (d\<lparr>flag_plus := True\<rparr>)) args
      else if (ph = After_percent \<or> ph = In_flags) \<and> c = CHR '' '' then
        Go [] (Directive In_flags (d\<lparr>flag_space := True\<rparr>)) args
      else if (ph = After_percent \<or> ph = In_flags) \<and> c = CHR ''#'' then
        Go [] (Directive In_flags (d\<lparr>flag_hash := True\<rparr>)) args
      else if (ph = After_percent \<or> ph = In_flags) \<and> c = CHR ''0'' then
        Go [] (Directive In_flags (d\<lparr>flag_zero := True\<rparr>)) args
      else if (ph = After_percent \<or> ph = In_flags) \<and> is_digit c then
        Go [] (Directive In_width (d\<lparr>field_width := digit_value c\<rparr>)) args
      else if ph = In_width \<and> is_digit c then
        Go [] (Directive In_width (d\<lparr>field_width := 10 * field_width d + digit_value c\<rparr>)) args
      else if (ph = After_percent \<or> ph = In_flags) \<and> c = CHR ''*'' then
        (case args of
           [] \<Rightarrow> Stop MissingArgument
         | a # rest \<Rightarrow>
             Go [] (Directive After_width
               (if sint a < 0 then d\<lparr>flag_minus := True, field_width := nat (- sint a)\<rparr>
                else d\<lparr>field_width := nat (sint a)\<rparr>)) rest)
      else if (ph = After_percent \<or> ph = In_flags \<or> ph = In_width \<or> ph = After_width) \<and> c = CHR ''.'' then
        Go [] (Directive After_dot (d\<lparr>field_precision := Some 0\<rparr>)) args
      else if ph = After_dot \<and> is_digit c then
        Go [] (Directive In_precision (d\<lparr>field_precision := Some (digit_value c)\<rparr>)) args
      else if ph = In_precision \<and> is_digit c then
        Go [] (Directive In_precision
          (d\<lparr>field_precision := Some (10 * the (field_precision d) + digit_value c)\<rparr>)) args
      else if ph = After_dot \<and> c = CHR ''*'' then
        (case args of
           [] \<Rightarrow> Stop MissingArgument
         | a # rest \<Rightarrow>
             Go [] (Directive After_precision
               (d\<lparr>field_precision := (if sint a < 0 then None else Some (nat (sint a)))\<rparr>)) rest)
      else if ph \<noteq> After_h \<and> ph \<noteq> After_hh \<and> c = CHR ''h'' then
        Go [] (Directive After_h (d\<lparr>modifier := Modifier_h\<rparr>)) args
      else if ph = After_h \<and> c = CHR ''h'' then
        Go [] (Directive After_hh (d\<lparr>modifier := Modifier_hh\<rparr>)) args
      else if c \<in> set ''ljztL'' then Stop ArgumentMismatch
      else conversion ph d c args)"

definition step :: "mode \<Rightarrow> char \<Rightarrow> c_int list \<Rightarrow> step" where
  "step m c args =
     (case m of
        Text \<Rightarrow> if c = CHR ''%'' then Go [] (Directive After_percent plain) args else Go [c] Text args
      | Directive ph d \<Rightarrow> in_directive ph d c args)"

fun scan :: "mode \<Rightarrow> string \<Rightarrow> c_int list \<Rightarrow> string outcome" where
  "scan m [] args = (case m of Text \<Rightarrow> Returns [] | Directive ph d \<Rightarrow> Undefined IncompleteDirective)"
| "scan m (c # cs) args =
     (case step m c args of
        Go out m' args' \<Rightarrow> map_outcome (\<lambda>rest. out @ rest) (scan m' cs args')
      | Stop f \<Rightarrow> Undefined f)"

definition expand :: "string \<Rightarrow> c_int list \<Rightarrow> string outcome" where
  "expand fmt args = scan Text fmt args"

subsection \<open>\<^verbatim>\<open>printf\<close>\<close>

text \<open>
  Modelled from the C standard (C11 7.21.6.3): \<^verbatim>\<open>printf\<close> writes the expanded format
  to the standard output and returns the number of characters transmitted, or a negative
  value when the output operation fails. It is handed the whole state, as a C function
  is, and changes the stream only.
\<close>

definition transmit :: "string \<Rightarrow> stream \<Rightarrow> c_int \<times> stream" where
  "transmit out s =
     (if accepting s then (word_of_nat (length out), s\<lparr>written := written s @ out\<rparr>)
      else (- 1, s))"

definition printf :: "string \<Rightarrow> c_int list \<Rightarrow> 'p state \<Rightarrow> (c_int \<times> 'p state) outcome" where
  "printf fmt args st =
     (case expand fmt args of
        Returns out \<Rightarrow>
          if length out < 2 ^ 31
          then Returns (fst (transmit out (stdout st)), st\<lparr>stdout := snd (transmit out (stdout st))\<rparr>)
          else Undefined CountOverflow
      | Undefined f \<Rightarrow> Undefined f)"

subsection \<open>\<^verbatim>\<open>log10\<close> and the conversions between \<^verbatim>\<open>int\<close> and \<^verbatim>\<open>double\<close>\<close>

text \<open>
  A \<^verbatim>\<open>double\<close> is a finite real number, an infinity or a NaN. Every \<^verbatim>\<open>int\<close> converts
  to a \<^verbatim>\<open>double\<close> without rounding. Two things are the platform's: the value its
  \<^verbatim>\<open>log10\<close> returns for a positive finite argument, and the \<^verbatim>\<open>int\<close> that comes out of
  converting a \<^verbatim>\<open>double\<close> with no representable integral part (C11 F.4: the value is
  unspecified). Modelled from the C standard (C11 6.3.1.4, 7.12.6.8, F.10.3.8):
  \<^verbatim>\<open>log10\<close> of zero is minus infinity, of a negative number NaN, and a finite
  \<^verbatim>\<open>double\<close> converts to \<^verbatim>\<open>int\<close> by discarding its fractional part.
\<close>

datatype double = Finite real | PlusInf | MinusInf | NaN

record platform =
  libm_log10 :: "real \<Rightarrow> real"
  invalid_conversion :: "double \<Rightarrow> c_int"

definition int_to_double :: "c_int \<Rightarrow> double" where
  "int_to_double v = Finite (real_of_int (sint v))"

definition log10 :: "platform \<Rightarrow> double \<Rightarrow> double" where
  "log10 plat d =
     (case d of
        Finite r \<Rightarrow> if 0 < r then Finite (libm_log10 plat r) else if r = 0 then MinusInf else NaN
      | PlusInf \<Rightarrow> PlusInf
      | MinusInf \<Rightarrow> NaN
      | NaN \<Rightarrow> NaN)"

definition integral_part :: "real \<Rightarrow> int" where
  "integral_part r = (if 0 \<le> r then \<lfloor>r\<rfloor> else \<lceil>r\<rceil>)"

definition double_to_int :: "platform \<Rightarrow> double \<Rightarrow> c_int" where
  "double_to_int plat d =
     (case d of
        Finite r \<Rightarrow>
          if - (2 ^ 31) \<le> integral_part r \<and> integral_part r < 2 ^ 31
          then word_of_int (integral_part r) else invalid_conversion plat d
      | _ \<Rightarrow> invalid_conversion plat d)"

section \<open>The two functions\<close>

definition MYLOG :: "platform \<Rightarrow> MYLOG_interface state \<Rightarrow> (c_int \<times> MYLOG_interface state) outcome" where
  "MYLOG plat st =
     (case printf ''Calling log with %d\<newline>'' [param_x (param st)] st of
        Returns (_, st1) \<Rightarrow>
          let res = double_to_int plat (log10 plat (int_to_double (param_x (param st1)))) in
          (case printf ''result :  %d\<newline>'' [res] st1 of
             Returns (_, st2) \<Rightarrow> Returns (res, st2)
           | Undefined f \<Rightarrow> Undefined f)
      | Undefined f \<Rightarrow> Undefined f)"

definition MYPRINTF :: "MYPRINTF_interface state \<Rightarrow> (c_int \<times> MYPRINTF_interface state) outcome" where
  "MYPRINTF st =
     (case c_string (param_text (param st)) of
        Returns fmt \<Rightarrow> printf fmt [param_value (param st)] st
      | Undefined f \<Rightarrow> Undefined f)"

section \<open>Vocabulary of the statements\<close>

text \<open>The value a call returns, if it returns.\<close>

definition returned :: "('r \<times> 's) outcome \<Rightarrow> 'r option" where
  "returned oc = (case oc of Returns (r, _) \<Rightarrow> Some r | _ \<Rightarrow> None)"

text \<open>
  The number of \<^verbatim>\<open>int\<close> arguments a format consumes: its \<^verbatim>\<open>%d\<close> and \<^verbatim>\<open>%i\<close>
  directives, when it consists of ordinary characters, \<^verbatim>\<open>%%\<close>, \<^verbatim>\<open>%d\<close> and
  \<^verbatim>\<open>%i\<close> only.
\<close>

fun directives :: "string \<Rightarrow> nat option" where
  "directives [] = Some 0"
| "directives [c] = (if c = CHR ''%'' then None else Some 0)"
| "directives (c # d # cs) =
     (if c \<noteq> CHR ''%'' then directives (d # cs)
      else if d = CHR ''%'' then directives cs
      else if d = CHR ''d'' \<or> d = CHR ''i'' then map_option Suc (directives cs)
      else None)"

text \<open>
  What the statement about positive operands asks of the platform's \<^verbatim>\<open>log10\<close>: the
  exact result at the powers of ten, and elsewhere on the positive \<^verbatim>\<open>int\<close> values an
  absolute error of at most \<open>1 / 10 ^ 12\<close>.
\<close>

definition accurate_log10 :: "platform \<Rightarrow> bool" where
  "accurate_log10 plat =
     ((\<forall>k<10. libm_log10 plat (10 ^ k) = real k) \<and>
      (\<forall>i::int. 1 \<le> i \<and> i < 2 ^ 31 \<longrightarrow>
         \<bar>libm_log10 plat (real_of_int i) - log 10 (real_of_int i)\<bar> \<le> 1 / 10 ^ 12))"

text \<open>
  A platform for the examples: its \<^verbatim>\<open>log10\<close> is the exact logarithm, and converting a
  \<^verbatim>\<open>double\<close> without representable integral part gives \<^verbatim>\<open>INT_MIN\<close>, as the
  conversion instruction of x86-64 does.
\<close>

definition exact_platform :: platform where
  "exact_platform = \<lparr>libm_log10 = log 10, invalid_conversion = (\<lambda>d. - (2 ^ 31))\<rparr>"

text \<open>A standard output on which nothing has been written yet and which accepts output.\<close>

definition fresh_stdout :: stream where
  "fresh_stdout = \<lparr>written = [], accepting = True\<rparr>"

section \<open>Strings and formats\<close>

lemma bytes_text_of:
  "length lit \<le> text_capacity \<Longrightarrow> bytes (text_of lit) = lit @ replicate (text_capacity - length lit) NUL"
  by (simp add: text_of.rep_eq)

lemma length_bytes: "length (bytes t) = 81"
  using bytes [of t] by (simp add: text_capacity_def)

lemma c_string_text_of:
  assumes "NUL \<notin> set lit" and "length lit < text_capacity"
  shows "c_string (text_of lit) = Returns lit"
proof -
  from assms(2) obtain n where n: "text_capacity - length lit = Suc n"
    by (cases "text_capacity - length lit") auto
  have "bytes (text_of lit) = lit @ NUL # replicate n NUL"
    using assms(2) by (simp add: bytes_text_of n)
  moreover have "takeWhile (\<lambda>c. c \<noteq> NUL) (lit @ NUL # replicate n NUL) = lit"
    using assms(1) by (auto simp: takeWhile_tail)
  ultimately show ?thesis
    by (simp add: c_string_def c_string_bytes_def)
qed

lemma c_string_bytes_length:
  assumes "c_string_bytes buf = Returns fmt"
  shows "length fmt < length buf"
proof -
  from assms have n: "NUL \<in> set buf" and f: "fmt = takeWhile (\<lambda>c. c \<noteq> NUL) buf"
    by (auto simp: c_string_bytes_def split: if_splits)
  have "length fmt \<le> length buf" unfolding f by (rule length_takeWhile_le)
  moreover have "length fmt \<noteq> length buf"
  proof
    assume "length fmt = length buf"
    moreover have "takeWhile (\<lambda>c. c \<noteq> NUL) buf =
        take (length (takeWhile (\<lambda>c. c \<noteq> NUL) buf)) buf"
      by (rule takeWhile_eq_take)
    ultimately have "takeWhile (\<lambda>c. c \<noteq> NUL) buf = buf"
      unfolding f by simp
    then have "\<forall>c\<in>set buf. c \<noteq> NUL" by (simp add: takeWhile_eq_all_conv)
    with n show False by blast
  qed
  ultimately show ?thesis by simp
qed

lemma c_string_length: "c_string t = Returns fmt \<Longrightarrow> length fmt \<le> 80"
  using c_string_bytes_length [of "bytes t" fmt] by (simp add: c_string_def length_bytes)

lemma c_string_bytes_prefix:
  assumes "NUL \<notin> set buf" and "c_string_bytes (buf @ beyond) = Returns fmt"
  shows "length buf \<le> length fmt"
proof -
  from assms(2) have "fmt = takeWhile (\<lambda>c. c \<noteq> NUL) (buf @ beyond)"
    by (auto simp: c_string_bytes_def split: if_splits)
  moreover from assms(1) have "\<forall>c\<in>set buf. c \<noteq> NUL" by blast
  ultimately have "fmt = buf @ takeWhile (\<lambda>c. c \<noteq> NUL) beyond"
    by (simp add: takeWhile_append2)
  then show ?thesis by simp
qed

lemma append_single: "(@) [c] = (#) c"
  by (rule ext) simp

lemma step_ordinary: "c \<noteq> CHR ''%'' \<Longrightarrow> step Text c args = Go [c] Text args"
  by (simp add: step_def)

lemma expand_Nil: "expand [] args = Returns []"
  by (simp add: expand_def)

lemma expand_ordinary:
  "c \<noteq> CHR ''%'' \<Longrightarrow> expand (c # cs) args = map_outcome (\<lambda>out. c # out) (expand cs args)"
  by (simp add: expand_def step_ordinary append_single)

lemma expand_incomplete: "expand ''%'' args = Undefined IncompleteDirective"
  by (simp add: expand_def step_def)

lemma expand_percent:
  "expand (CHR ''%'' # CHR ''%'' # cs) args = map_outcome (\<lambda>out. CHR ''%'' # out) (expand cs args)"
  by (simp add: expand_def step_def in_directive_def conversion_def is_digit_def
      outcome.map_comp comp_def outcome.map_ident)

lemma format_signed_plain: "format_signed plain (sint a) = conv_d a"
  by (simp add: format_signed_def plain_def pad_def with_precision_def conv_d_def)

lemma expand_int:
  assumes "d = CHR ''d'' \<or> d = CHR ''i''"
  shows "expand (CHR ''%'' # d # cs) (a # as) = map_outcome (\<lambda>out. conv_d a @ out) (expand cs as)"
proof -
  have "in_directive After_percent plain d (a # as) = Go (conv_d a) Text as"
    using assms format_signed_plain [of a]
    by (auto simp: in_directive_def conversion_def render_def is_digit_def signed_argument_def plain_def)
  then show ?thesis
    by (simp add: expand_def step_def outcome.map_comp comp_def outcome.map_ident)
qed

lemma expand_int_missing:
  assumes "d = CHR ''d'' \<or> d = CHR ''i''"
  shows "expand (CHR ''%'' # d # cs) [] = Undefined MissingArgument"
proof -
  have "in_directive After_percent plain d [] = Stop MissingArgument"
    using assms by (auto simp: in_directive_def conversion_def is_digit_def)
  then show ?thesis by (simp add: expand_def step_def)
qed

lemma expand_no_directive: "CHR ''%'' \<notin> set fmt \<Longrightarrow> expand fmt args = Returns fmt"
proof (induction fmt)
  case Nil
  show ?case by (simp add: expand_Nil)
next
  case (Cons c cs)
  then have "c \<noteq> CHR ''%''" and "expand cs args = Returns cs" by auto
  then show ?case by (simp add: expand_ordinary)
qed

lemma digit_in: "d < 10 \<Longrightarrow> digit d \<in> set ''0123456789''"
  unfolding digit_def by (rule nth_mem) simp

lemma decimal_digits: "set (decimal n) \<subseteq> set ''0123456789''"
proof (induction n rule: decimal.induct)
  case (1 n)
  show ?case
  proof (cases "n < 10")
    case True
    then show ?thesis using digit_in [of n] by (subst decimal.simps) simp
  next
    case False
    have "digit (n mod 10) \<in> set ''0123456789''" by (rule digit_in) simp
    with False 1 show ?thesis by (subst decimal.simps) simp
  qed
qed

lemma octal_digits: "set (octal n) \<subseteq> set ''0123456789''"
proof (induction n rule: octal.induct)
  case (1 n)
  show ?case
  proof (cases "n < 8")
    case True
    then show ?thesis using digit_in [of n] by (subst octal.simps) simp
  next
    case False
    have "digit (n mod 8) \<in> set ''0123456789''"
      by (rule digit_in) (simp add: less_trans [OF mod_less_divisor])
    with False 1 show ?thesis by (subst octal.simps) simp
  qed
qed

lemma hexadecimal_digits: "length ds = 16 \<Longrightarrow> set (hexadecimal ds n) \<subseteq> set ds"
proof (induction ds n rule: hexadecimal.induct)
  case (1 ds n)
  show ?case
  proof (cases "n < 16")
    case True
    with 1(2) show ?thesis by (subst hexadecimal.simps) simp
  next
    case False
    have "ds ! (n mod 16) \<in> set ds" using 1(2) by (intro nth_mem) simp
    with False 1 show ?thesis by (subst hexadecimal.simps) simp
  qed
qed

lemma newline_not_digit: "newline \<notin> set ''0123456789''"
  by (simp add: newline_def)

lemma decimal_no_newline: "newline \<notin> set (decimal n)"
  using decimal_digits [of n] newline_not_digit by blast

lemma octal_no_newline: "newline \<notin> set (octal n)"
  using octal_digits [of n] newline_not_digit by blast

lemma hexadecimal_no_newline:
  "newline \<notin> set (hexadecimal ''0123456789abcdef'' n)"
  "newline \<notin> set (hexadecimal ''0123456789ABCDEF'' n)"
proof -
  have "newline \<notin> set ''0123456789abcdef''" "newline \<notin> set ''0123456789ABCDEF''"
    by (simp_all add: newline_def)
  moreover have "set (hexadecimal ''0123456789abcdef'' n) \<subseteq> set ''0123456789abcdef''"
    by (rule hexadecimal_digits) simp
  moreover have "set (hexadecimal ''0123456789ABCDEF'' n) \<subseteq> set ''0123456789ABCDEF''"
    by (rule hexadecimal_digits) simp
  ultimately show "newline \<notin> set (hexadecimal ''0123456789abcdef'' n)"
    "newline \<notin> set (hexadecimal ''0123456789ABCDEF'' n)"
    by blast+
qed

lemma conv_d_no_newline: "newline \<notin> set (conv_d v)"
proof -
  have "newline \<noteq> CHR ''-''" by (simp add: newline_def)
  then show ?thesis using decimal_no_newline by (simp add: conv_d_def)
qed

lemma count_newline_conv_d: "count_list (conv_d v) newline = 0"
  using conv_d_no_newline [of v] by (simp add: count_list_0_iff)

lemma percent_not_newline: "CHR ''%'' \<noteq> newline"
  by (simp add: newline_def)

lemma with_precision_no_newline:
  "newline \<notin> set ds \<Longrightarrow> newline \<notin> set (with_precision d n ds)"
  by (simp add: with_precision_def newline_def split: option.splits)

lemma pad_no_newline:
  "newline \<notin> set pre \<Longrightarrow> newline \<notin> set ds \<Longrightarrow> newline \<notin> set (pad d pre ds)"
  by (simp add: pad_def Let_def newline_def)

lemma format_signed_no_newline: "newline \<notin> set (format_signed d i)"
  unfolding format_signed_def
  by (intro pad_no_newline with_precision_no_newline decimal_no_newline) (simp add: newline_def)

lemma format_unsigned_no_newline: "newline \<notin> set (format_unsigned d c n)"
proof -
  have z: "newline \<noteq> CHR ''0''" and e: "newline \<notin> set ([] :: string)" by (simp_all add: newline_def)
  have p: "newline \<notin> set ''0x''" "newline \<notin> set ''0X''"
    by (simp_all add: newline_def)
  have o: "newline \<notin> set (with_precision d n (octal n))"
    by (intro with_precision_no_newline octal_no_newline)
  have u: "newline \<notin> set (with_precision d n (decimal n))"
    by (intro with_precision_no_newline decimal_no_newline)
  have x: "newline \<notin> set (with_precision d n (hexadecimal ''0123456789abcdef'' n))"
    by (intro with_precision_no_newline hexadecimal_no_newline)
  have X: "newline \<notin> set (with_precision d n (hexadecimal ''0123456789ABCDEF'' n))"
    by (intro with_precision_no_newline hexadecimal_no_newline)
  show ?thesis
  proof (cases "c = CHR ''o''")
    case True
    have "newline \<notin> set (if flag_hash d \<and> (with_precision d n (octal n) = [] \<or>
        hd (with_precision d n (octal n)) \<noteq> CHR ''0'')
        then CHR ''0'' # with_precision d n (octal n) else with_precision d n (octal n))"
      using o z by simp
    with e have "newline \<notin> set (pad d [] (if flag_hash d \<and> (with_precision d n (octal n) = [] \<or>
        hd (with_precision d n (octal n)) \<noteq> CHR ''0'')
        then CHR ''0'' # with_precision d n (octal n) else with_precision d n (octal n)))"
      by (rule pad_no_newline)
    with True show ?thesis by (simp add: format_unsigned_def Let_def)
  next
    case no: False
    show ?thesis
    proof (cases "c = CHR ''x''")
      case True
      have "newline \<notin> set (if flag_hash d \<and> n \<noteq> 0 then ''0x'' else [])"
        using p(1) e by (cases "flag_hash d \<and> n \<noteq> 0") simp_all
      then have "newline \<notin> set (pad d (if flag_hash d \<and> n \<noteq> 0 then ''0x'' else [])
          (with_precision d n (hexadecimal ''0123456789abcdef'' n)))"
        using x by (rule pad_no_newline)
      with True show ?thesis by (simp add: format_unsigned_def)
    next
      case nx: False
      show ?thesis
      proof (cases "c = CHR ''X''")
        case True
        have "newline \<notin> set (if flag_hash d \<and> n \<noteq> 0 then ''0X'' else [])"
          using p(2) e by (cases "flag_hash d \<and> n \<noteq> 0") simp_all
        then have "newline \<notin> set (pad d (if flag_hash d \<and> n \<noteq> 0 then ''0X'' else [])
            (with_precision d n (hexadecimal ''0123456789ABCDEF'' n)))"
          using X by (rule pad_no_newline)
        with True show ?thesis by (simp add: format_unsigned_def)
      next
        case False
        have "newline \<notin> set (pad d [] (with_precision d n (decimal n)))"
          using e u by (rule pad_no_newline)
        with no nx False show ?thesis by (simp add: format_unsigned_def)
      qed
    qed
  qed
qed

lemma format_char_no_newline:
  assumes "char_of (unat a) \<noteq> newline"
  shows "newline \<notin> set (format_char d a)"
proof -
  have "newline \<notin> set ([] :: string)" by simp
  moreover have "newline \<notin> set [char_of (unat a) :: char]" using assms by simp
  ultimately show ?thesis unfolding format_char_def by (rule pad_no_newline)
qed

lemma render_no_newline:
  assumes "render d c a = Some out" and "char_of (unat a) \<noteq> newline"
  shows "newline \<notin> set out"
proof (cases "c = CHR ''d'' \<or> c = CHR ''i''")
  case True
  with assms(1) have "out = format_signed d (signed_argument d a)"
    by (simp add: render_def split: if_splits)
  then show ?thesis by (simp only: format_signed_no_newline not_False_eq_True)
next
  case nd: False
  show ?thesis
  proof (cases "c = CHR ''c''")
    case True
    with nd assms(1) have "out = format_char d a"
      by (simp add: render_def split: if_splits)
    with assms(2) show ?thesis by (simp only: format_char_no_newline not_False_eq_True)
  next
    case False
    with nd assms(1) have "out = format_unsigned d c (unsigned_argument d a)"
      by (simp add: render_def split: if_splits)
    then show ?thesis by (simp only: format_unsigned_no_newline not_False_eq_True)
  qed
qed

lemma conversion_newline: "conversion ph d newline args = Stop InvalidDirective"
  by (simp add: conversion_def newline_def)

lemma conversion_Go:
  assumes "conversion ph d c args = Go out m args'"
    and "\<forall>a\<in>set args. char_of (unat a) \<noteq> newline"
  shows "newline \<notin> set out" and "c \<noteq> newline" and "set args' \<subseteq> set args"
proof -
  show "c \<noteq> newline" using assms(1) conversion_newline [of ph d args] by auto
  have "newline \<notin> set out \<and> set args' \<subseteq> set args"
  proof (cases "c = CHR ''%''")
    case True
    with assms(1) have "out = ''%''" and "args' = args"
      by (simp_all add: conversion_def split: if_splits)
    then show ?thesis by (simp add: newline_def)
  next
    case np: False
    show ?thesis
    proof (cases "c \<in> set ''diouxXc''")
      case True
      with np assms(1) obtain a rest where args: "args = a # rest"
        and r: "render d c a = Some out" and a': "args' = rest"
        by (simp only: conversion_def if_False if_True) (auto split: list.splits option.splits)
      from assms(2) args have "char_of (unat a) \<noteq> newline" by simp
      with r have "newline \<notin> set out" by (rule render_no_newline)
      with args a' show ?thesis by auto
    next
      case False
      with np assms(1) show ?thesis
        by (simp only: conversion_def if_False) (auto split: if_splits list.splits)
    qed
  qed
  then show "newline \<notin> set out" and "set args' \<subseteq> set args" by simp_all
qed

lemma in_directive_newline: "in_directive ph d newline args = Stop InvalidDirective"
  by (simp add: in_directive_def conversion_def is_digit_def newline_def)

lemma in_directive_cases:
  assumes "in_directive ph d c args = Go out m args'"
  shows "(out = [] \<and> set args' \<subseteq> set args) \<or> conversion ph d c args = Go out m args'"
  using assms unfolding in_directive_def
  by (simp split: if_splits list.splits) auto

lemma step_Go:
  assumes "step m c args = Go out m' args'"
    and "\<forall>a\<in>set args. char_of (unat a) \<noteq> newline"
  shows "count_list out newline = (if c = newline then 1 else 0)" and "set args' \<subseteq> set args"
proof -
  have "count_list out newline = (if c = newline then 1 else 0) \<and> set args' \<subseteq> set args"
  proof (cases m)
    case Text
    with assms(1) show ?thesis
      using percent_not_newline by (auto simp: step_def split: if_splits)
  next
    case (Directive ph d)
    with assms(1) have g: "in_directive ph d c args = Go out m' args'"
      by (simp add: step_def)
    then have c: "c \<noteq> newline" using in_directive_newline [of ph d args] by auto
    from in_directive_cases [OF g] show ?thesis
    proof
      assume "out = [] \<and> set args' \<subseteq> set args"
      with c show ?thesis by simp
    next
      assume "conversion ph d c args = Go out m' args'"
      from conversion_Go(1,3) [OF this assms(2)] c show ?thesis
        by (simp add: count_list_0_iff)
    qed
  qed
  then show "count_list out newline = (if c = newline then 1 else 0)" and "set args' \<subseteq> set args"
    by simp_all
qed

lemma scan_newlines:
  "\<forall>a\<in>set args. char_of (unat a) \<noteq> newline \<Longrightarrow> scan m cs args = Returns out \<Longrightarrow>
   count_list out newline = count_list cs newline"
proof (induction cs arbitrary: m args out)
  case Nil
  then show ?case by (simp split: mode.splits)
next
  case (Cons c cs)
  from Cons.prems(2) obtain o1 m' args' where s: "step m c args = Go o1 m' args'"
    by (cases "step m c args") simp_all
  with Cons.prems(2) obtain rest where r: "scan m' cs args' = Returns rest" and o: "out = o1 @ rest"
    by (cases "scan m' cs args'") simp_all
  from step_Go [OF s Cons.prems(1)]
  have c: "count_list o1 newline = (if c = newline then 1 else 0)" and a: "set args' \<subseteq> set args" .
  from a Cons.prems(1) have "\<forall>a\<in>set args'. char_of (unat a) \<noteq> newline" by blast
  from Cons.IH [OF this r] c o show ?case by simp
qed

lemma expand_newlines:
  "\<forall>a\<in>set args. char_of (unat a) \<noteq> newline \<Longrightarrow> expand fmt args = Returns out \<Longrightarrow>
   count_list out newline = count_list fmt newline"
  unfolding expand_def by (rule scan_newlines)

lemma decimal_length: "0 < k \<Longrightarrow> n < 10 ^ k \<Longrightarrow> length (decimal n) \<le> k"
proof (induction n arbitrary: k rule: decimal.induct)
  case (1 n)
  show ?case
  proof (cases "n < 10")
    case True
    with 1(2) show ?thesis by (subst decimal.simps) simp
  next
    case False
    from 1(2) obtain j where k: "k = Suc j" by (cases k) auto
    have "j \<noteq> 0"
    proof
      assume "j = 0"
      with k 1(3) False show False by simp
    qed
    then have j: "0 < j" by simp
    from 1(3) k have "n div 10 < 10 ^ j" by (simp add: less_mult_imp_div_less)
    with False j have "length (decimal (n div 10)) \<le> j" by (intro 1(1)) simp_all
    with False k show ?thesis by (subst decimal.simps) simp
  qed
qed

lemma conv_d_length: "length (conv_d v) \<le> 11"
proof -
  define t :: nat where "t = 10"
  have b: "- (2 ^ 31) \<le> sint v" "sint v < 2 ^ 31"
    using sint_ge [of v] sint_lt [of v] by simp_all
  have "nat (sint v) < 10 ^ t" "nat (- sint v) < 10 ^ t"
    using b by (simp_all add: t_def)
  then have "length (decimal (nat (sint v))) \<le> t" "length (decimal (nat (- sint v))) \<le> t"
    by (simp_all add: decimal_length t_def)
  then show ?thesis by (simp add: conv_d_def t_def)
qed

lemma conv_d_42: "conv_d 42 = ''42''"
  by (simp add: conv_d_def decimal.simps digit_def)

lemma directives_expand_returns:
  "directives fmt = Some n \<Longrightarrow> n \<le> length args \<Longrightarrow>
   \<exists>out. expand fmt args = Returns out \<and> count_list out newline = count_list fmt newline \<and>
     length out \<le> length fmt + 9 * n"
proof (induction fmt arbitrary: n args rule: directives.induct)
  case 1
  then show ?case by (simp add: expand_Nil)
next
  case (2 c)
  then have "c \<noteq> CHR ''%''" by (simp split: if_splits)
  then show ?case by (simp add: expand_ordinary expand_Nil)
next
  case (3 c d cs)
  show ?case
  proof (cases "c \<noteq> CHR ''%''")
    case True
    with 3(4) have "directives (d # cs) = Some n" by simp
    from 3(1) [OF True this 3(5)] obtain out where
      "expand (d # cs) args = Returns out" "count_list out newline = count_list (d # cs) newline"
      "length out \<le> length (d # cs) + 9 * n" by blast
    with True show ?thesis by (simp add: expand_ordinary)
  next
    case False
    then have c: "c = CHR ''%''" by simp
    show ?thesis
    proof (cases "d = CHR ''%''")
      case True
      with c 3(4) have "directives cs = Some n" by simp
      from 3(2) [OF False True this 3(5)] obtain out where
        "expand cs args = Returns out" "count_list out newline = count_list cs newline"
        "length out \<le> length cs + 9 * n" by blast
      with c True percent_not_newline show ?thesis by (simp add: expand_percent)
    next
      case nd: False
      show ?thesis
      proof (cases "d = CHR ''d'' \<or> d = CHR ''i''")
        case True
        with c nd 3(4) obtain m where m: "directives cs = Some m" "n = Suc m"
          by auto
        with 3(5) obtain a as where args: "args = a # as" "m \<le> length as"
          by (cases args) auto
        from 3(3) [OF False nd True m(1) args(2)] obtain out where
          out: "expand cs as = Returns out" "count_list out newline = count_list cs newline"
          "length out \<le> length cs + 9 * m" by blast
        have dn: "d \<noteq> newline" using True by (auto simp: newline_def)
        have "expand (c # d # cs) args = Returns (conv_d a @ out)"
          using c True args(1) out(1) by (simp add: expand_int)
        moreover have "count_list (conv_d a @ out) newline = count_list (c # d # cs) newline"
          using c dn percent_not_newline out(2) by (simp add: count_newline_conv_d)
        moreover have "length (conv_d a @ out) \<le> length (c # d # cs) + 9 * n"
          using conv_d_length [of a] out(3) m(2) by simp
        ultimately show ?thesis by blast
      next
        case False
        with c nd 3(4) show ?thesis by simp
      qed
    qed
  qed
qed

lemma directives_expand_missing:
  "directives fmt = Some n \<Longrightarrow> length args < n \<Longrightarrow> expand fmt args = Undefined MissingArgument"
proof (induction fmt arbitrary: n args rule: directives.induct)
  case 1
  then show ?case by simp
next
  case (2 c)
  then show ?case by (simp split: if_splits)
next
  case (3 c d cs)
  show ?case
  proof (cases "c \<noteq> CHR ''%''")
    case True
    with 3(4) have "directives (d # cs) = Some n" by simp
    from 3(1) [OF True this 3(5)] True show ?thesis by (simp add: expand_ordinary)
  next
    case False
    then have c: "c = CHR ''%''" by simp
    show ?thesis
    proof (cases "d = CHR ''%''")
      case True
      with c 3(4) have "directives cs = Some n" by simp
      from 3(2) [OF False True this 3(5)] c True show ?thesis by (simp add: expand_percent)
    next
      case nd: False
      show ?thesis
      proof (cases "d = CHR ''d'' \<or> d = CHR ''i''")
        case True
        with c nd 3(4) obtain m where m: "directives cs = Some m" "n = Suc m"
          by auto
        show ?thesis
        proof (cases args)
          case Nil
          with c True show ?thesis by (simp add: expand_int_missing)
        next
          case (Cons a as)
          with 3(5) m(2) have "length as < m" by simp
          from 3(3) [OF False nd True m(1) this] c True Cons show ?thesis
            by (simp add: expand_int)
        qed
      next
        case False
        with c nd 3(4) show ?thesis by simp
      qed
    qed
  qed
qed

lemma expand_line1:
  "expand ''Calling log with %d\<newline>'' [v] = Returns (''Calling log with '' @ conv_d v @ [newline])"
  by (simp add: expand_ordinary expand_int expand_Nil newline_def)

lemma expand_line2:
  "expand ''result :  %d\<newline>'' [v] = Returns (''result :  '' @ conv_d v @ [newline])"
  by (simp add: expand_ordinary expand_int expand_Nil newline_def)

lemma newline_not_in_line1: "newline \<notin> set ''Calling log with ''"
  by (simp add: newline_def)

lemma newline_not_in_line2: "newline \<notin> set ''result :  ''"
  by (simp add: newline_def)

lemma expand_Value: "expand ''Value: %d'' [v] = Returns (''Value: '' @ conv_d v)"
  by (simp add: expand_ordinary expand_int expand_Nil)

section \<open>The logarithm of a positive \<^verbatim>\<open>int\<close>\<close>

lemma sint_word_of_int_small:
  "- (2 ^ 31) \<le> k \<Longrightarrow> k < 2 ^ 31 \<Longrightarrow> sint (word_of_int k :: c_int) = k"
  by (simp add: sint_sbintrunc' signed_take_bit_int_eq_self)

lemma sint_word_of_nat_small: "k < 2 ^ 31 \<Longrightarrow> sint (word_of_nat k :: c_int) = int k"
proof -
  assume "k < 2 ^ 31"
  then have "int k < 2 ^ 31" by simp
  then have "sint (word_of_int (int k) :: c_int) = int k"
    by (intro sint_word_of_int_small) simp_all
  then show ?thesis by simp
qed

lemma log10_margin: "1 / 10 ^ 12 \<le> log 10 (1 + 1 / 10 ^ 10 :: real)"
proof -
  define e :: real where "e = 1 / 10 ^ 10"
  have e: "0 \<le> e" "e \<le> 1" by (simp_all add: e_def)
  have "e - e\<^sup>2 \<le> ln (1 + e)"
    using e by (rule ln_one_plus_pos_lower_bound)
  moreover have "9 / 10 ^ 12 \<le> e - e\<^sup>2"
    by (simp add: e_def power2_eq_square)
  ultimately have a: "9 / 10 ^ 12 \<le> ln (1 + e)" by linarith
  have "ln (10::real) \<le> 10 - 1"
    by (rule ln_le_minus_one) simp
  then have b: "ln (10::real) \<le> 9" by simp
  have c: "0 < ln (10::real)" by simp
  have "(1 / 10 ^ 12) * ln (10::real) \<le> (1 / 10 ^ 12) * 9"
    using b by (intro mult_left_mono) simp_all
  with a have "(1 / 10 ^ 12) * ln (10::real) \<le> ln (1 + e)" by simp
  then have "1 / 10 ^ 12 \<le> ln (1 + e) / ln (10::real)"
    using c by (simp add: pos_le_divide_eq)
  then show ?thesis by (simp add: log_def e_def)
qed

lemma of_int_less_pow10: "real_of_int i < 10 ^ n \<longleftrightarrow> i < 10 ^ n"
  by simp

lemma pow10_le_of_int: "10 ^ n \<le> real_of_int i \<longleftrightarrow> 10 ^ n \<le> i"
  by simp

lemma pow10_less_of_int: "10 ^ n < real_of_int i \<longleftrightarrow> 10 ^ n < i"
  by simp

lemma log10_pow10: "log 10 ((10::real) ^ n) = real n"
  by (simp add: log_nat_power)

lemma floor_libm_log10:
  assumes acc: "accurate_log10 plat" and lo: "1 \<le> i" and hi: "i < 2 ^ 31"
  shows "\<lfloor>libm_log10 plat (real_of_int i)\<rfloor> = \<lfloor>log 10 (real_of_int i)\<rfloor>"
proof -
  define L where "L = log 10 (real_of_int i)"
  define l where "l = libm_log10 plat (real_of_int i)"
  define k where "k = nat \<lfloor>L\<rfloor>"
  define m where "m = k + 1"
  define t :: nat where "t = 10"
  define a :: real where "a = 1 + 1 / 10 ^ t"
  have ipos: "0 < real_of_int i" using lo by simp
  have L0: "0 \<le> L" using lo by (simp add: L_def)
  have "0 \<le> \<lfloor>L\<rfloor>" using L0 by simp
  then have kfl: "real k = real_of_int \<lfloor>L\<rfloor>" by (simp add: k_def)
  have kL: "real k \<le> L" "L < real m"
    unfolding m_def using kfl by linarith+
  have iL: "10 powr L = real_of_int i"
    using ipos by (simp add: L_def)
  have p1: "10 ^ k \<le> real_of_int i"
  proof -
    have "(10::real) ^ k = 10 powr real k"
      by (rule powr_realpow [symmetric]) simp
    also have "\<dots> \<le> 10 powr L"
      by (rule powr_mono) (use kL(1) in simp_all)
    finally show ?thesis by (simp only: iL)
  qed
  have p2: "real_of_int i < 10 ^ m"
  proof -
    have "(10::real) powr L < 10 powr real m"
      by (rule powr_less_mono) (use kL(2) in simp_all)
    also have "\<dots> = 10 ^ m"
      by (rule powr_realpow) simp
    finally show ?thesis by (simp only: iL)
  qed
  have ibig: "real_of_int i < 10 ^ t"
  proof -
    have "i < 10 ^ t" using hi by (simp add: t_def)
    then show ?thesis by (simp only: of_int_less_pow10)
  qed
  have k9: "k < t"
  proof (rule ccontr)
    assume "\<not> k < t"
    then have "(10::real) ^ t \<le> 10 ^ k" by (intro power_increasing) simp_all
    with p1 ibig show False by linarith
  qed
  have err: "\<bar>l - L\<bar> \<le> 1 / 10 ^ 12"
    using acc lo hi by (simp add: accurate_log10_def l_def L_def)
  have marg: "1 / 10 ^ 12 \<le> log 10 a"
    unfolding a_def t_def by (rule log10_margin)
  have "0 \<le> 1 / (10::real) ^ t" by simp
  then have apos: "0 < a" unfolding a_def by linarith
  have a1: "a = 1 + 1 / 10 ^ t" by (simp add: a_def)
  have tpos: "0 < (10::real) ^ t" by simp
  have lower: "real k \<le> l"
  proof (cases "real_of_int i = 10 ^ k")
    case True
    have "libm_log10 plat (10 ^ k) = real k"
      using acc k9 by (simp add: accurate_log10_def t_def)
    with True show ?thesis by (simp add: l_def)
  next
    case False
    with p1 have "(10::real) ^ k < real_of_int i" by simp
    then have "(10::int) ^ k < i" by (simp only: pow10_less_of_int)
    then have "(10::int) ^ k + 1 \<le> i" by simp
    then have "real_of_int (10 ^ k + 1) \<le> real_of_int i" by (simp only: of_int_le_iff)
    then have i1: "(10::real) ^ k + 1 \<le> real_of_int i" by simp
    have "(10::real) ^ k \<le> 10 ^ t" using k9 by (intro power_increasing) simp_all
    then have "(10::real) ^ k / 10 ^ t \<le> 1" using tpos by (simp add: divide_le_eq)
    then have "(10::real) ^ k * a \<le> 10 ^ k + 1" by (simp add: a1 algebra_simps)
    with i1 have "(10::real) ^ k * a \<le> real_of_int i" by linarith
    moreover have "0 < (10::real) ^ k * a" using apos by simp
    ultimately have "log 10 ((10::real) ^ k * a) \<le> log 10 (real_of_int i)"
      by (intro iffD2 [OF log_le_cancel_iff]) (use ipos in simp_all)
    moreover have "log 10 ((10::real) ^ k * a) = log 10 ((10::real) ^ k) + log 10 a"
      by (rule log_mult_pos) (use apos in simp_all)
    ultimately have "real k + log 10 a \<le> L" by (simp only: log10_pow10 L_def)
    with marg err show ?thesis by linarith
  qed
  have upper: "l < real m"
  proof -
    from p2 have "i < (10::int) ^ m" by (simp only: of_int_less_pow10)
    then have "i + 1 \<le> (10::int) ^ m" by simp
    then have "real_of_int (i + 1) \<le> real_of_int (10 ^ m)" by (simp only: of_int_le_iff)
    then have i1: "real_of_int i + 1 \<le> 10 ^ m" by simp
    have "real_of_int i / 10 ^ t < 1" using ibig tpos by (simp add: divide_less_eq)
    then have "real_of_int i * a < real_of_int i + 1" by (simp add: a1 algebra_simps)
    with i1 have "real_of_int i * a < 10 ^ m" by linarith
    moreover have "0 < real_of_int i * a" using apos ipos by simp
    ultimately have "log 10 (real_of_int i * a) < log 10 (10 ^ m)"
      by (intro iffD2 [OF log_less_cancel_iff]) simp_all
    moreover have "log 10 (real_of_int i * a) = log 10 (real_of_int i) + log 10 a"
      by (rule log_mult_pos) (use apos ipos in simp_all)
    ultimately have "L + log 10 a < real m" by (simp only: log10_pow10 L_def)
    with marg err show ?thesis by linarith
  qed
  have "\<lfloor>l\<rfloor> = int k" using lower upper by (simp add: floor_eq_iff m_def)
  moreover have "\<lfloor>L\<rfloor> = int k" using kL by (simp add: floor_eq_iff m_def)
  ultimately show ?thesis by (simp add: l_def L_def)
qed

lemma floor_log10_between:
  assumes "10 ^ k \<le> i" and "i < 10 ^ (k + 1)"
  shows "\<lfloor>log 10 (real_of_int i)\<rfloor> = int k"
proof -
  have "(0::int) < 10 ^ k" by simp
  with assms(1) have ipos: "0 < real_of_int i" by linarith
  have a: "(10::real) ^ k \<le> real_of_int i"
    using assms(1) by (simp only: pow10_le_of_int)
  have b: "real_of_int i < 10 ^ (k + 1)"
    using assms(2) by (simp only: of_int_less_pow10)
  have pw: "log 10 ((10::real) ^ n) = real n" for n
    by (simp add: log_nat_power)
  have "log 10 ((10::real) ^ k) \<le> log 10 (real_of_int i)"
    by (rule iffD2 [OF log_le_cancel_iff]) (use a ipos in simp_all)
  then have lo: "real k \<le> log 10 (real_of_int i)"
    by (simp only: pw)
  have "log 10 (real_of_int i) < log 10 ((10::real) ^ (k + 1))"
    by (rule iffD2 [OF log_less_cancel_iff]) (use b ipos in simp_all)
  then have hi: "log 10 (real_of_int i) < real (k + 1)"
    by (simp only: pw)
  from lo hi show ?thesis by (simp add: floor_eq_iff)
qed

lemma accurate_exact_platform: "accurate_log10 exact_platform"
  by (simp add: accurate_log10_def exact_platform_def log_nat_power)

section \<open>What a call of \<^verbatim>\<open>printf\<close> does\<close>

lemma printf_expand:
  "expand fmt args = Returns out \<Longrightarrow> length out < 2 ^ 31 \<Longrightarrow>
   printf fmt args st =
     Returns (fst (transmit out (stdout st)), st\<lparr>stdout := snd (transmit out (stdout st))\<rparr>)"
  by (simp add: printf_def)

lemma printf_run:
  "expand fmt args = Returns out \<Longrightarrow> length out < 2 ^ 31 \<Longrightarrow>
   printf fmt args st =
     Returns (if accepting (stdout st) then word_of_nat (length out) else - 1,
              st\<lparr>stdout := (stdout st)\<lparr>written := written (stdout st) @ (if accepting (stdout st) then out else [])\<rparr>\<rparr>)"
  by (simp add: printf_def transmit_def)

lemma printf_undefined: "expand fmt args = Undefined f \<Longrightarrow> printf fmt args st = Undefined f"
  by (simp add: printf_def)




section \<open>What a call of \<open>MYLOG\<close> does\<close>

lemma line1_short: "length (''Calling log with '' @ conv_d v @ [newline]) < 2 ^ 31"
  using conv_d_length [of v] by simp

lemma line2_short: "length (''result :  '' @ conv_d v @ [newline]) < 2 ^ 31"
  using conv_d_length [of v] by simp

lemma MYLOG_eq:
  "MYLOG plat st =
     (let res = double_to_int plat (log10 plat (int_to_double (param_x (param st))));
          s1 = snd (transmit (''Calling log with '' @ conv_d (param_x (param st)) @ [newline]) (stdout st));
          s2 = snd (transmit (''result :  '' @ conv_d res @ [newline]) s1)
      in Returns (res, st\<lparr>stdout := s2\<rparr>))"
  by (simp add: MYLOG_def printf_expand [OF expand_line1 line1_short]
      printf_expand [OF expand_line2 line2_short] Let_def)

lemma MYLOG_run:
  "MYLOG plat st =
     (let res = double_to_int plat (log10 plat (int_to_double (param_x (param st))));
          out = ''Calling log with '' @ conv_d (param_x (param st)) @ [newline] @ ''result :  '' @ conv_d res @ [newline]
      in Returns (res, st\<lparr>stdout := (stdout st)\<lparr>written := written (stdout st) @ (if accepting (stdout st) then out else [])\<rparr>\<rparr>))"
  by (simp add: MYLOG_eq Let_def transmit_def)

lemma MYLOG_returns: "\<exists>res st'. MYLOG plat st = Returns (res, st')"
  by (simp add: MYLOG_eq Let_def)

lemma MYLOG_positive:
  assumes acc: "accurate_log10 plat" and pos: "0 < sint (param_x (param st))"
  shows "returned (MYLOG plat st) = Some (word_of_int \<lfloor>log 10 (real_of_int (sint (param_x (param st))))\<rfloor>)"
    and "0 \<le> \<lfloor>log 10 (real_of_int (sint (param_x (param st))))\<rfloor>"
    and "\<lfloor>log 10 (real_of_int (sint (param_x (param st))))\<rfloor> < 10"
proof -
  define i where "i = sint (param_x (param st))"
  define l where "l = libm_log10 plat (real_of_int i)"
  have lo: "1 \<le> i" using pos by (simp add: i_def)
  have hi: "i < 2 ^ 31" using sint_lt [of "param_x (param st)"] by (simp add: i_def)
  have fl: "\<lfloor>l\<rfloor> = \<lfloor>log 10 (real_of_int i)\<rfloor>"
    unfolding l_def using acc lo hi by (rule floor_libm_log10)
  have L0: "0 \<le> log 10 (real_of_int i)" using lo by simp
  then have f0: "0 \<le> \<lfloor>log 10 (real_of_int i)\<rfloor>" by simp
  define n :: nat where "n = 10"
  have "real_of_int i < 10 ^ n"
  proof -
    have "i < 10 ^ n" using hi by (simp add: n_def)
    then show ?thesis by simp
  qed
  then have "log 10 (real_of_int i) < log 10 ((10::real) ^ n)"
    by (intro iffD2 [OF log_less_cancel_iff]) (use lo in simp_all)
  also have "\<dots> = real n" by (simp add: log_nat_power)
  finally have "log 10 (real_of_int i) < 10" by (simp add: n_def)
  then have f9: "\<lfloor>log 10 (real_of_int i)\<rfloor> < 10" by linarith
  have l0: "0 \<le> l" using fl f0 by linarith
  have ip: "integral_part l = \<lfloor>log 10 (real_of_int i)\<rfloor>"
    using l0 fl by (simp add: integral_part_def)
  have "log10 plat (int_to_double (param_x (param st))) = Finite l"
    using pos by (simp add: log10_def int_to_double_def i_def l_def del: of_int_sint)
  then have "double_to_int plat (log10 plat (int_to_double (param_x (param st)))) =
      word_of_int \<lfloor>log 10 (real_of_int i)\<rfloor>"
    using f0 f9 by (simp add: double_to_int_def ip)
  then show "returned (MYLOG plat st) = Some (word_of_int \<lfloor>log 10 (real_of_int (sint (param_x (param st))))\<rfloor>)"
    by (simp add: MYLOG_eq returned_def Let_def i_def del: of_int_sint)
  show "0 \<le> \<lfloor>log 10 (real_of_int (sint (param_x (param st))))\<rfloor>" using f0 by (simp add: i_def)
  show "\<lfloor>log 10 (real_of_int (sint (param_x (param st))))\<rfloor> < 10" using f9 by (simp add: i_def)
qed

lemma MYLOG_nonpositive:
  assumes "sint (param_x (param st)) \<le> 0"
  shows "returned (MYLOG plat st) =
    Some (invalid_conversion plat (if param_x (param st) = 0 then MinusInf else NaN))"
proof -
  have z: "sint (param_x (param st)) = 0 \<longleftrightarrow> param_x (param st) = 0"
    by (rule signed_eq_0_iff)
  have "log10 plat (int_to_double (param_x (param st))) =
      (if param_x (param st) = 0 then MinusInf else NaN)"
    using assms z by (auto simp: log10_def int_to_double_def simp del: of_int_sint)
  then show ?thesis
    by (simp add: MYLOG_eq returned_def Let_def double_to_int_def)
qed

lemma MYLOG_any_stream:
  "\<exists>r out. \<forall>s. MYLOG plat \<lparr>param = q, stdout = s\<rparr> =
     Returns (r, \<lparr>param = q, stdout = s\<lparr>written := written s @ (if accepting s then out else [])\<rparr>\<rparr>)"
proof -
  define res where "res = double_to_int plat (log10 plat (int_to_double (param_x q)))"
  define out where "out = ''Calling log with '' @ conv_d (param_x q) @ [newline]
     @ ''result :  '' @ conv_d res @ [newline]"
  have "MYLOG plat \<lparr>param = q, stdout = s\<rparr> =
      Returns (res, \<lparr>param = q, stdout = s\<lparr>written := written s @ (if accepting s then out else [])\<rparr>\<rparr>)" for s
    by (simp add: MYLOG_run Let_def res_def out_def)
  then show ?thesis by blast
qed


lemma MYLOG_one:
  "MYLOG exact_platform \<lparr>param = \<lparr>param_x = 1\<rparr>, stdout = fresh_stdout\<rparr> =
   Returns (0, \<lparr>param = \<lparr>param_x = 1\<rparr>,
                stdout = \<lparr>written = ''Calling log with 1'' @ [newline] @ ''result :  0'' @ [newline],
                          accepting = True\<rparr>\<rparr>)"
proof -
  have "double_to_int exact_platform (log10 exact_platform (int_to_double 1)) = 0"
    by (simp add: double_to_int_def log10_def int_to_double_def exact_platform_def integral_part_def)
  moreover have "conv_d 1 = ''1''" "conv_d 0 = ''0''"
    by (simp_all add: conv_d_def decimal.simps digit_def)
  ultimately show ?thesis
    by (simp add: MYLOG_run fresh_stdout_def)
qed

section \<open>What a call of \<open>MYPRINTF\<close> does\<close>

lemma MYPRINTF_printf:
  "c_string (param_text (param st)) = Returns fmt \<Longrightarrow>
   MYPRINTF st = printf fmt [param_value (param st)] st"
  by (simp add: MYPRINTF_def)

lemma MYPRINTF_not_terminated:
  "NUL \<notin> set (bytes (param_text (param st))) \<Longrightarrow> MYPRINTF st = Undefined NotTerminated"
  by (simp add: MYPRINTF_def c_string_def c_string_bytes_def)

lemma MYPRINTF_undefined:
  "c_string (param_text (param st)) = Returns fmt \<Longrightarrow>
   expand fmt [param_value (param st)] = Undefined f \<Longrightarrow> MYPRINTF st = Undefined f"
  by (simp add: MYPRINTF_printf printf_undefined)

lemma MYPRINTF_run:
  assumes "c_string (param_text (param st)) = Returns fmt"
    and "expand fmt [param_value (param st)] = Returns out"
    and "length out < 2 ^ 31"
  shows "MYPRINTF st =
    Returns (if accepting (stdout st) then word_of_nat (length out) else - 1,
             st\<lparr>stdout := (stdout st)\<lparr>written := written (stdout st) @ (if accepting (stdout st) then out else [])\<rparr>\<rparr>)"
  using assms by (simp add: MYPRINTF_printf printf_run)



lemma MYPRINTF_any_stream:
  assumes c: "c_string (param_text p) = Returns fmt"
    and e: "expand fmt [param_value p] = Returns out" and l: "length out < 2 ^ 31"
  shows "MYPRINTF \<lparr>param = p, stdout = s\<rparr> =
     Returns (if accepting s then word_of_nat (length out) else - 1,
              \<lparr>param = p, stdout = s\<lparr>written := written s @ (if accepting s then out else [])\<rparr>\<rparr>)"
proof -
  have c': "c_string (param_text (param \<lparr>param = p, stdout = s\<rparr>)) = Returns fmt"
    using c by simp
  have e': "expand fmt [param_value (param \<lparr>param = p, stdout = s\<rparr>)] = Returns out"
    using e by simp
  from MYPRINTF_run [OF c' e' l] show ?thesis by simp
qed


lemma c_string_literal:
  "NUL \<notin> set lit \<Longrightarrow> length lit < text_capacity \<Longrightarrow>
   c_string (param_text (param \<lparr>param = \<lparr>param_text = text_of lit, param_value = v\<rparr>, stdout = s\<rparr>)) = Returns lit"
  by (simp add: c_string_text_of)

lemma c_string_Value: "c_string (text_of ''Value: %d'') = Returns ''Value: %d''"
  by (rule c_string_text_of) (simp_all add: NUL_def text_capacity_def)

lemma conv_d_12: "conv_d 12 = ''12''"
  by (simp add: conv_d_def decimal.simps digit_def)

lemma expand_items: "expand ''%d items'' [12] = Returns ''12 items''"
  by (simp add: expand_int expand_ordinary expand_Nil conv_d_12)




lemma bytes_text_of_full: "length lit = text_capacity \<Longrightarrow> bytes (text_of lit) = lit"
  by (simp add: bytes_text_of)

lemma c_string_bytes_terminated:
  "NUL \<notin> set lit \<Longrightarrow> c_string_bytes (lit @ [NUL]) = Returns lit"
  by (auto simp: c_string_bytes_def takeWhile_tail)

lemma replicate_3: "replicate 3 c = [c, c, c]"
  by (simp add: numeral_3_eq_3)

lemma char_of_10: "char_of (10::nat) = newline"
  by (simp add: newline_def char_of_def bit_0)

lemma expand_width: "expand ''%5d'' [42] = Returns ''   42''"
  by (simp add: expand_def step_def in_directive_def conversion_def render_def is_digit_def
      digit_value_def format_signed_def signed_argument_def pad_def with_precision_def plain_def
      decimal.simps digit_def replicate_3)

lemma expand_hex: "expand ''%x'' [255] = Returns ''ff''"
  by (simp add: expand_def step_def in_directive_def conversion_def render_def is_digit_def
      format_unsigned_def unsigned_argument_def pad_def with_precision_def plain_def
      hexadecimal.simps)

lemma expand_string: "expand ''%s'' [a] = Undefined ArgumentMismatch"
  by (simp add: expand_def step_def in_directive_def conversion_def is_digit_def)

lemma expand_char_newline: "expand ''%c'' [10] = Returns [newline]"
  by (simp add: expand_def step_def in_directive_def conversion_def render_def is_digit_def
      format_char_def pad_def plain_def char_of_10)

lemma expand_two: "expand ''%d %d'' [a] = Undefined MissingArgument"
  by (simp add: expand_int expand_ordinary expand_int_missing)

lemma c_string_terminated: "c_string t = Returns fmt \<Longrightarrow> NUL \<in> set (bytes t)"
  by (simp add: c_string_def c_string_bytes_def split: if_splits)

section \<open>The claims\<close>

text \<open>
  C1. On a platform whose \<^verbatim>\<open>log10\<close> is accurate, \<open>MYLOG\<close> returns for every positive
  operand the base-10 logarithm of the operand truncated to an integer; it returns 2 for
  100, 1 for 99, 0 for 1 and 3 for 1000.
\<close>

theorem MYLOG_truncated_log10:
  assumes "accurate_log10 plat"
  shows "(0 < sint v \<longrightarrow>
           (\<exists>r. returned (MYLOG plat \<lparr>param = \<lparr>param_x = v\<rparr>, stdout = s\<rparr>) = Some r \<and>
                sint r = \<lfloor>log 10 (real_of_int (sint v))\<rfloor>)) \<and>
         returned (MYLOG plat \<lparr>param = \<lparr>param_x = 100\<rparr>, stdout = s\<rparr>) = Some 2 \<and>
         returned (MYLOG plat \<lparr>param = \<lparr>param_x = 99\<rparr>, stdout = s\<rparr>) = Some 1 \<and>
         returned (MYLOG plat \<lparr>param = \<lparr>param_x = 1\<rparr>, stdout = s\<rparr>) = Some 0 \<and>
         returned (MYLOG plat \<lparr>param = \<lparr>param_x = 1000\<rparr>, stdout = s\<rparr>) = Some 3"
proof -
  have gen: "returned (MYLOG plat \<lparr>param = \<lparr>param_x = w\<rparr>, stdout = s\<rparr>) =
        Some (word_of_int \<lfloor>log 10 (real_of_int (sint w))\<rfloor>) \<and>
      sint (word_of_int \<lfloor>log 10 (real_of_int (sint w))\<rfloor> :: c_int) = \<lfloor>log 10 (real_of_int (sint w))\<rfloor>"
    if "0 < sint w" for w
  proof -
    let ?st = "\<lparr>param = \<lparr>param_x = w\<rparr>, stdout = s\<rparr>"
    from that have p: "0 < sint (param_x (param ?st))" by simp
    note f = MYLOG_positive [OF assms p]
    have "sint (word_of_int \<lfloor>log 10 (real_of_int (sint w))\<rfloor> :: c_int) = \<lfloor>log 10 (real_of_int (sint w))\<rfloor>"
      using f(2,3) by (intro sint_word_of_int_small) (simp_all del: of_int_sint)
    with f(1) show ?thesis by (simp del: of_int_sint)
  qed
  have e100: "\<lfloor>log 10 (real_of_int 100)\<rfloor> = int 2" by (rule floor_log10_between) simp_all
  have e99: "\<lfloor>log 10 (real_of_int 99)\<rfloor> = int 1" by (rule floor_log10_between) simp_all
  have e1: "\<lfloor>log 10 (real_of_int 1)\<rfloor> = int 0" by (rule floor_log10_between) simp_all
  have e1000: "\<lfloor>log 10 (real_of_int 1000)\<rfloor> = int 3" by (rule floor_log10_between) simp_all
  have "returned (MYLOG plat \<lparr>param = \<lparr>param_x = 100\<rparr>, stdout = s\<rparr>) = Some 2"
    using gen [of 100] e100 by (simp del: of_int_sint)
  moreover have "returned (MYLOG plat \<lparr>param = \<lparr>param_x = 99\<rparr>, stdout = s\<rparr>) = Some 1"
    using gen [of 99] e99 by (simp del: of_int_sint)
  moreover have "returned (MYLOG plat \<lparr>param = \<lparr>param_x = 1\<rparr>, stdout = s\<rparr>) = Some 0"
    using gen [of 1] e1 by (simp del: of_int_sint)
  moreover have "returned (MYLOG plat \<lparr>param = \<lparr>param_x = 1000\<rparr>, stdout = s\<rparr>) = Some 3"
    using gen [of 1000] e1000 by (simp del: of_int_sint)
  ultimately show ?thesis using gen by blast
qed

theorem MYLOG_truncated_log10_witness:
  "accurate_log10 exact_platform \<and> 0 < sint (1000 :: c_int) \<and>
   returned (MYLOG exact_platform
     \<lparr>param = \<lparr>param_x = 1000\<rparr>, stdout = \<lparr>written = [], accepting = True\<rparr>\<rparr>) = Some 3"
  using MYLOG_truncated_log10 [OF accurate_exact_platform, of 1000 "\<lparr>written = [], accepting = True\<rparr>"]
    accurate_exact_platform
  by simp

text \<open>
  C4. On a standard output that accepts output, \<open>MYLOG\<close> writes, for every operand,
  exactly two lines: \<^verbatim>\<open>Calling log with\<close> followed by the operand, then
  \<^verbatim>\<open>result :\<close>, two spaces and the value it returns; neither line contains a
  newline before its end.
\<close>

theorem MYLOG_trace_lines:
  assumes "accepting (stdout st)"
  shows "\<exists>res st'. MYLOG plat st = Returns (res, st') \<and>
           written (stdout st') =
             written (stdout st) @ ''Calling log with '' @ conv_d (param_x (param st)) @ [newline]
               @ ''result :  '' @ conv_d res @ [newline] \<and>
           newline \<notin> set (''Calling log with '' @ conv_d (param_x (param st))) \<and>
           newline \<notin> set (''result :  '' @ conv_d res)"
proof -
  define res where "res = double_to_int plat (log10 plat (int_to_double (param_x (param st))))"
  define s1 where "s1 = snd (transmit (''Calling log with '' @ conv_d (param_x (param st)) @ [newline]) (stdout st))"
  define s2 where "s2 = snd (transmit (''result :  '' @ conv_d res @ [newline]) s1)"
  have run: "MYLOG plat st = Returns (res, st\<lparr>stdout := s2\<rparr>)"
    by (simp only: MYLOG_eq Let_def res_def s1_def s2_def)
  have w1: "written s1 = written (stdout st) @ ''Calling log with '' @ conv_d (param_x (param st)) @ [newline]"
    and a1: "accepting s1"
    using assms by (simp_all add: s1_def transmit_def)
  have w2: "written s2 = written s1 @ ''result :  '' @ conv_d res @ [newline]"
    using a1 by (simp add: s2_def transmit_def)
  have n1: "newline \<notin> set (''Calling log with '' @ conv_d (param_x (param st)))"
    using newline_not_in_line1 conv_d_no_newline [of "param_x (param st)"] by (simp only: set_append Un_iff) blast
  have n2: "newline \<notin> set (''result :  '' @ conv_d res)"
    using newline_not_in_line2 conv_d_no_newline [of res] by (simp only: set_append Un_iff) blast
  have "written (stdout (st\<lparr>stdout := s2\<rparr>)) =
      written (stdout st) @ ''Calling log with '' @ conv_d (param_x (param st)) @ [newline]
        @ ''result :  '' @ conv_d res @ [newline]"
    using w1 w2 by simp
  with run n1 n2 show ?thesis by blast
qed

theorem MYLOG_trace_lines_witness:
  "accepting (stdout \<lparr>param = \<lparr>param_x = 100\<rparr>, stdout = fresh_stdout\<rparr>) \<and>
   (\<exists>res st'. MYLOG exact_platform \<lparr>param = \<lparr>param_x = 100\<rparr>, stdout = fresh_stdout\<rparr> = Returns (res, st') \<and>
      written (stdout st') =
        ''Calling log with '' @ conv_d 100 @ [newline] @ ''result :  '' @ conv_d res @ [newline])"
proof -
  let ?st = "\<lparr>param = \<lparr>param_x = 100\<rparr>, stdout = fresh_stdout\<rparr>"
  have a: "accepting (stdout ?st)" by (simp add: fresh_stdout_def)
  from MYLOG_trace_lines [OF a, of exact_platform]
  obtain res st' where "MYLOG exact_platform ?st = Returns (res, st')"
    and "written (stdout st') =
      written (stdout ?st) @ ''Calling log with '' @ conv_d (param_x (param ?st)) @ [newline]
        @ ''result :  '' @ conv_d res @ [newline]"
    by blast
  then have "MYLOG exact_platform ?st = Returns (res, st') \<and>
      written (stdout st') =
        ''Calling log with '' @ conv_d 100 @ [newline] @ ''result :  '' @ conv_d res @ [newline]"
    by (simp add: fresh_stdout_def)
  with a show ?thesis by blast
qed

text \<open>
  C6. \<open>MYLOG\<close> has no error path: it returns for every operand. For an operand that
  is zero or negative it checks nothing and returns whatever the platform makes of
  converting minus infinity (operand zero) or a NaN (negative operand) to \<^verbatim>\<open>int\<close>.
\<close>

theorem MYLOG_no_error_path:
  "(\<exists>res st'. MYLOG plat st = Returns (res, st')) \<and>
   (sint (param_x (param st)) \<le> 0 \<longrightarrow>
      returned (MYLOG plat st) =
        Some (invalid_conversion plat (if param_x (param st) = 0 then MinusInf else NaN)))"
  using MYLOG_returns [of plat st] MYLOG_nonpositive [of st plat] by blast

theorem MYLOG_no_error_path_witness:
  "sint (param_x (param \<lparr>param = \<lparr>param_x = 0\<rparr>, stdout = fresh_stdout\<rparr>)) \<le> 0 \<and>
   returned (MYLOG exact_platform \<lparr>param = \<lparr>param_x = 0\<rparr>, stdout = fresh_stdout\<rparr>)
     = Some (- (2 ^ 31))"
  using MYLOG_no_error_path [of exact_platform "\<lparr>param = \<lparr>param_x = 0\<rparr>, stdout = fresh_stdout\<rparr>"]
  by (simp add: exact_platform_def)

text \<open>
  C3. Called with the template \<^verbatim>\<open>Value: %d\<close> and the value 42 on a standard output
  that accepts output, \<open>MYPRINTF\<close> writes exactly \<^verbatim>\<open>Value: 42\<close> and returns 9.
\<close>

theorem MYPRINTF_Value_42:
  "MYPRINTF \<lparr>param = \<lparr>param_text = text_of ''Value: %d'', param_value = 42\<rparr>,
             stdout = \<lparr>written = w, accepting = True\<rparr>\<rparr> =
   Returns (9, \<lparr>param = \<lparr>param_text = text_of ''Value: %d'', param_value = 42\<rparr>,
                stdout = \<lparr>written = w @ ''Value: 42'', accepting = True\<rparr>\<rparr>)"
proof -
  let ?st = "\<lparr>param = \<lparr>param_text = text_of ''Value: %d'', param_value = 42\<rparr>,
             stdout = \<lparr>written = w, accepting = True\<rparr>\<rparr>"
  have c: "c_string (param_text (param ?st)) = Returns ''Value: %d''"
    using c_string_Value by simp
  have e: "expand ''Value: %d'' [param_value (param ?st)] = Returns ''Value: 42''"
    by (simp add: expand_Value conv_d_42)
  have l: "length ''Value: 42'' < 2 ^ 31" by simp
  from MYPRINTF_run [OF c e l] show ?thesis by simp
qed

text \<open>
  C2, as the code has it. \<open>MYPRINTF\<close> validates nothing and passes the template to
  \<^verbatim>\<open>printf\<close> with the one value. Among the templates made of ordinary characters,
  \<^verbatim>\<open>%%\<close>, \<^verbatim>\<open>%d\<close> and \<^verbatim>\<open>%i\<close>, none is rejected. With at most one
  \<^verbatim>\<open>%d\<close> or \<^verbatim>\<open>%i\<close> the call writes the expansion of the template to the standard
  output and returns its length (on a stream whose output fails it writes nothing and
  returns \<open>- 1\<close>). With two or more the second one finds no argument and the behaviour is
  undefined.
\<close>

theorem MYPRINTF_unvalidated:
  assumes "c_string (param_text (param st)) = Returns fmt" and "directives fmt = Some n"
  shows "(n \<le> 1 \<longrightarrow>
           (\<exists>out. expand fmt [param_value (param st)] = Returns out \<and>
              MYPRINTF st =
                Returns (if accepting (stdout st) then word_of_nat (length out) else - 1,
                         st\<lparr>stdout := (stdout st)\<lparr>written := written (stdout st) @
                            (if accepting (stdout st) then out else [])\<rparr>\<rparr>))) \<and>
         (1 < n \<longrightarrow> MYPRINTF st = Undefined MissingArgument)"
proof (intro conjI impI)
  assume n: "n \<le> 1"
  then have "n \<le> length [param_value (param st)]" by simp
  from directives_expand_returns [OF assms(2) this]
  obtain out where out: "expand fmt [param_value (param st)] = Returns out"
    and len: "length out \<le> length fmt + 9 * n" by blast
  from c_string_length [OF assms(1)] len n have "length out < 2 ^ 31" by simp
  from MYPRINTF_run [OF assms(1) out this] out
  show "\<exists>out. expand fmt [param_value (param st)] = Returns out \<and>
      MYPRINTF st =
        Returns (if accepting (stdout st) then word_of_nat (length out) else - 1,
                 st\<lparr>stdout := (stdout st)\<lparr>written := written (stdout st) @
                    (if accepting (stdout st) then out else [])\<rparr>\<rparr>)"
    by blast
next
  assume "1 < n"
  then have "length [param_value (param st)] < n" by simp
  from directives_expand_missing [OF assms(2) this]
  have "expand fmt [param_value (param st)] = Undefined MissingArgument" .
  with assms(1) show "MYPRINTF st = Undefined MissingArgument"
    by (rule MYPRINTF_undefined)
qed

theorem MYPRINTF_unvalidated_witness:
  "c_string (param_text (param \<lparr>param = \<lparr>param_text = text_of ''%d and %i'', param_value = 5\<rparr>, stdout = fresh_stdout\<rparr>))
     = Returns ''%d and %i'' \<and>
   directives ''%d and %i'' = Some 2 \<and>
   MYPRINTF \<lparr>param = \<lparr>param_text = text_of ''%d and %i'', param_value = 5\<rparr>, stdout = fresh_stdout\<rparr>
     = Undefined MissingArgument \<and>
   c_string (param_text (param \<lparr>param = \<lparr>param_text = text_of ''%d items'', param_value = 12\<rparr>, stdout = fresh_stdout\<rparr>))
     = Returns ''%d items'' \<and>
   directives ''%d items'' = Some 1 \<and>
   MYPRINTF \<lparr>param = \<lparr>param_text = text_of ''%d items'', param_value = 12\<rparr>, stdout = fresh_stdout\<rparr>
     = Returns (8, \<lparr>param = \<lparr>param_text = text_of ''%d items'', param_value = 12\<rparr>,
                    stdout = \<lparr>written = ''12 items'', accepting = True\<rparr>\<rparr>)"
proof -
  let ?a = "\<lparr>param = \<lparr>param_text = text_of ''%d and %i'', param_value = 5\<rparr>, stdout = fresh_stdout\<rparr>"
  let ?b = "\<lparr>param = \<lparr>param_text = text_of ''%d items'', param_value = 12\<rparr>, stdout = fresh_stdout\<rparr>"
  have ca: "c_string (param_text (param ?a)) = Returns ''%d and %i''"
    by (rule c_string_literal) (simp_all add: NUL_def text_capacity_def)
  have da: "directives ''%d and %i'' = Some 2" by simp
  have cb: "c_string (param_text (param ?b)) = Returns ''%d items''"
    by (rule c_string_literal) (simp_all add: NUL_def text_capacity_def)
  have db: "directives ''%d items'' = Some 1" by simp
  from MYPRINTF_unvalidated [OF ca da] have ra: "MYPRINTF ?a = Undefined MissingArgument" by simp
  from MYPRINTF_unvalidated [OF cb db] obtain out where
    e: "expand ''%d items'' [param_value (param ?b)] = Returns out"
    and m: "MYPRINTF ?b =
      Returns (if accepting (stdout ?b) then word_of_nat (length out) else - 1,
               ?b\<lparr>stdout := (stdout ?b)\<lparr>written := written (stdout ?b) @
                  (if accepting (stdout ?b) then out else [])\<rparr>\<rparr>)"
    by blast
  from e have "out = ''12 items''" by (simp add: expand_items)
  with m have rb: "MYPRINTF ?b =
      Returns (8, \<lparr>param = \<lparr>param_text = text_of ''%d items'', param_value = 12\<rparr>,
                   stdout = \<lparr>written = ''12 items'', accepting = True\<rparr>\<rparr>)"
    by (simp add: fresh_stdout_def)
  from ca da ra cb db rb show ?thesis by (intro conjI)
qed

text \<open>
  C2 as stated fails: for the template \<^verbatim>\<open>%d %d\<close> and the value 1 the call does not
  return a failure, its behaviour is undefined.
\<close>

theorem MYPRINTF_two_directives_undefined:
  "MYPRINTF \<lparr>param = \<lparr>param_text = text_of ''%d %d'', param_value = 1\<rparr>, stdout = fresh_stdout\<rparr>
     = Undefined MissingArgument"
proof -
  let ?st = "\<lparr>param = \<lparr>param_text = text_of ''%d %d'', param_value = 1\<rparr>, stdout = fresh_stdout\<rparr>"
  have "c_string (param_text (param ?st)) = Returns ''%d %d''"
    by (rule c_string_literal) (simp_all add: NUL_def text_capacity_def)
  moreover have "expand ''%d %d'' [param_value (param ?st)] = Undefined MissingArgument"
    by (rule expand_two)
  ultimately show ?thesis by (rule MYPRINTF_undefined)
qed

text \<open>
  C5, as the code has it. Take a request whose array holds a terminated template that
  \<^verbatim>\<open>printf\<close> can expand with the one \<^verbatim>\<open>int\<close> argument, the expansion having fewer
  than \<open>2 ^ 31\<close> characters. On a standard output that accepts output, \<open>MYPRINTF\<close>
  writes exactly the expansion and returns its length. On one whose output fails it
  returns a negative value. The expansion holds exactly as many newlines as the
  template, unless the value is the code of the newline character, which a
  \<^verbatim>\<open>%c\<close> directive writes.
\<close>

theorem MYPRINTF_count_or_negative:
  assumes "c_string (param_text (param st)) = Returns fmt"
    and "expand fmt [param_value (param st)] = Returns out"
    and "length out < 2 ^ 31"
  shows "(accepting (stdout st) \<longrightarrow>
           (\<exists>r. MYPRINTF st =
                   Returns (r, st\<lparr>stdout := (stdout st)\<lparr>written := written (stdout st) @ out\<rparr>\<rparr>) \<and>
                sint r = int (length out))) \<and>
         (\<not> accepting (stdout st) \<longrightarrow> (\<exists>r st'. MYPRINTF st = Returns (r, st') \<and> sint r < 0)) \<and>
         (char_of (unat (param_value (param st))) \<noteq> newline \<longrightarrow>
            count_list out newline = count_list fmt newline)"
proof (intro conjI impI)
  note run = MYPRINTF_run [OF assms]
  have cnt: "sint (word_of_nat (length out) :: c_int) = int (length out)"
    using assms(3) by (rule sint_word_of_nat_small)
  {
    assume "accepting (stdout st)"
    with run cnt
    show "\<exists>r. MYPRINTF st =
        Returns (r, st\<lparr>stdout := (stdout st)\<lparr>written := written (stdout st) @ out\<rparr>\<rparr>) \<and>
        sint r = int (length out)"
      by simp
  next
    assume "\<not> accepting (stdout st)"
    with run have "MYPRINTF st = Returns (- 1, st)" by simp
    moreover have "sint (- 1 :: c_int) < 0" by simp
    ultimately show "\<exists>r st'. MYPRINTF st = Returns (r, st') \<and> sint r < 0" by blast
  next
    assume "char_of (unat (param_value (param st))) \<noteq> newline"
    then have "\<forall>a\<in>set [param_value (param st)]. char_of (unat a) \<noteq> newline" by simp
    from expand_newlines [OF this assms(2)]
    show "count_list out newline = count_list fmt newline" .
  }
qed

theorem MYPRINTF_count_or_negative_witness:
  "c_string (param_text (param \<lparr>param = \<lparr>param_text = text_of ''%5d'', param_value = 42\<rparr>, stdout = fresh_stdout\<rparr>))
     = Returns ''%5d'' \<and>
   expand ''%5d'' [42] = Returns ''   42'' \<and>
   accepting fresh_stdout \<and>
   char_of (unat (42 :: c_int)) \<noteq> newline \<and>
   (\<exists>r. MYPRINTF \<lparr>param = \<lparr>param_text = text_of ''%5d'', param_value = 42\<rparr>, stdout = fresh_stdout\<rparr> =
      Returns (r, \<lparr>param = \<lparr>param_text = text_of ''%5d'', param_value = 42\<rparr>,
                   stdout = \<lparr>written = ''   42'', accepting = True\<rparr>\<rparr>) \<and> sint r = 5) \<and>
   count_list ''   42'' newline = count_list ''%5d'' newline \<and>
   c_string (param_text (param \<lparr>param = \<lparr>param_text = text_of ''%x'', param_value = 255\<rparr>,
                                  stdout = \<lparr>written = [], accepting = False\<rparr>\<rparr>))
     = Returns ''%x'' \<and>
   expand ''%x'' [255] = Returns ''ff'' \<and>
   (\<exists>r st'. MYPRINTF \<lparr>param = \<lparr>param_text = text_of ''%x'', param_value = 255\<rparr>,
                         stdout = \<lparr>written = [], accepting = False\<rparr>\<rparr> = Returns (r, st') \<and> sint r < 0)"
proof -
  let ?a = "\<lparr>param = \<lparr>param_text = text_of ''%5d'', param_value = 42\<rparr>, stdout = fresh_stdout\<rparr>"
  let ?b = "\<lparr>param = \<lparr>param_text = text_of ''%x'', param_value = 255\<rparr>,
            stdout = \<lparr>written = [], accepting = False\<rparr>\<rparr>"
  have ca: "c_string (param_text (param ?a)) = Returns ''%5d''"
    by (rule c_string_literal) (simp_all add: NUL_def text_capacity_def)
  have ea: "expand ''%5d'' [param_value (param ?a)] = Returns ''   42''"
    by (simp add: expand_width)
  have la: "length ''   42'' < 2 ^ 31" by simp
  have aa: "accepting fresh_stdout" by (simp add: fresh_stdout_def)
  have na: "char_of (unat (42 :: c_int)) \<noteq> newline"
    by (simp add: newline_def char_of_def bit_iff_odd)
  note ta = MYPRINTF_count_or_negative [OF ca ea la]
  from ta aa have ra: "\<exists>r. MYPRINTF ?a =
      Returns (r, \<lparr>param = \<lparr>param_text = text_of ''%5d'', param_value = 42\<rparr>,
                   stdout = \<lparr>written = ''   42'', accepting = True\<rparr>\<rparr>) \<and> sint r = 5"
    by (simp add: fresh_stdout_def)
  from ta na have ka: "count_list ''   42'' newline = count_list ''%5d'' newline"
    by simp
  have cb: "c_string (param_text (param ?b)) = Returns ''%x''"
    by (rule c_string_literal) (simp_all add: NUL_def text_capacity_def)
  have eb: "expand ''%x'' [param_value (param ?b)] = Returns ''ff''"
    by (simp add: expand_hex)
  have lb: "length ''ff'' < 2 ^ 31" by simp
  from MYPRINTF_count_or_negative [OF cb eb lb]
  have rb: "\<exists>r st'. MYPRINTF ?b = Returns (r, st') \<and> sint r < 0"
    by simp
  from ca expand_width aa na ra ka cb expand_hex rb show ?thesis
    by (intro conjI)
qed

text \<open>
  C5 as stated fails. For the template \<^verbatim>\<open>%s\<close> and the value 42, \<^verbatim>\<open>printf\<close> takes
  the value for the address of a string: the behaviour is undefined and the call returns
  neither a count nor a negative value. And for the template \<^verbatim>\<open>%c\<close> and the value 10
  the call writes a newline although the template contains none.
\<close>

theorem MYPRINTF_no_count_extra_newline:
  "returned (MYPRINTF \<lparr>param = \<lparr>param_text = text_of ''%s'', param_value = 42\<rparr>, stdout = fresh_stdout\<rparr>)
     = None \<and>
   MYPRINTF \<lparr>param = \<lparr>param_text = text_of ''%s'', param_value = 42\<rparr>, stdout = fresh_stdout\<rparr>
     = Undefined ArgumentMismatch \<and>
   MYPRINTF \<lparr>param = \<lparr>param_text = text_of ''%c'', param_value = 10\<rparr>, stdout = fresh_stdout\<rparr>
     = Returns (1, \<lparr>param = \<lparr>param_text = text_of ''%c'', param_value = 10\<rparr>,
                    stdout = \<lparr>written = [newline], accepting = True\<rparr>\<rparr>) \<and>
   count_list ''%c'' newline = 0"
proof -
  let ?a = "\<lparr>param = \<lparr>param_text = text_of ''%s'', param_value = 42\<rparr>, stdout = fresh_stdout\<rparr>"
  let ?b = "\<lparr>param = \<lparr>param_text = text_of ''%c'', param_value = 10\<rparr>, stdout = fresh_stdout\<rparr>"
  have "c_string (param_text (param ?a)) = Returns ''%s''"
    by (rule c_string_literal) (simp_all add: NUL_def text_capacity_def)
  moreover have "expand ''%s'' [param_value (param ?a)] = Undefined ArgumentMismatch"
    by (rule expand_string)
  ultimately have a: "MYPRINTF ?a = Undefined ArgumentMismatch" by (rule MYPRINTF_undefined)
  then have a': "returned (MYPRINTF ?a) = None" by (simp add: returned_def)
  have cb: "c_string (param_text (param ?b)) = Returns ''%c''"
    by (rule c_string_literal) (simp_all add: NUL_def text_capacity_def)
  have eb: "expand ''%c'' [param_value (param ?b)] = Returns [newline]"
    by (simp add: expand_char_newline)
  have lb: "length [newline] < 2 ^ 31" by simp
  from MYPRINTF_run [OF cb eb lb]
  have b: "MYPRINTF ?b =
      Returns (1, \<lparr>param = \<lparr>param_text = text_of ''%c'', param_value = 10\<rparr>,
                   stdout = \<lparr>written = [newline], accepting = True\<rparr>\<rparr>)"
    by (simp add: fresh_stdout_def)
  have n: "count_list ''%c'' newline = 0" by (simp add: newline_def)
  from a' a b n show ?thesis by (intro conjI)
qed

text \<open>
  C7, as the code has it. What a call of \<open>MYLOG\<close> returns and writes is determined
  by the operand: every call returns the same value and appends the same text to the
  standard output, whatever has been written before (and appends nothing where output
  fails). The same holds for \<open>MYPRINTF\<close> on every request whose array holds a
  terminated template that \<^verbatim>\<open>printf\<close> can expand with the one argument into fewer than
  \<open>2 ^ 31\<close> characters. So a second call with the same input returns and writes what the
  first did.
\<close>

theorem calls_repeatable:
  "(\<exists>r out. \<forall>s. MYLOG plat \<lparr>param = q, stdout = s\<rparr> =
       Returns (r, \<lparr>param = q, stdout = s\<lparr>written := written s @ (if accepting s then out else [])\<rparr>\<rparr>)) \<and>
   (c_string (param_text p) = Returns fmt \<longrightarrow> expand fmt [param_value p] = Returns txt \<longrightarrow>
    length txt < 2 ^ 31 \<longrightarrow>
      (\<forall>s. MYPRINTF \<lparr>param = p, stdout = s\<rparr> =
         Returns (if accepting s then word_of_nat (length txt) else - 1,
                  \<lparr>param = p, stdout = s\<lparr>written := written s @ (if accepting s then txt else [])\<rparr>\<rparr>)))"
proof (intro conjI impI allI)
  show "\<exists>r out. \<forall>s. MYLOG plat \<lparr>param = q, stdout = s\<rparr> =
       Returns (r, \<lparr>param = q, stdout = s\<lparr>written := written s @ (if accepting s then out else [])\<rparr>\<rparr>)"
    by (rule MYLOG_any_stream)
next
  fix s
  assume "c_string (param_text p) = Returns fmt" and "expand fmt [param_value p] = Returns txt"
    and "length txt < 2 ^ 31"
  then show "MYPRINTF \<lparr>param = p, stdout = s\<rparr> =
         Returns (if accepting s then word_of_nat (length txt) else - 1,
                  \<lparr>param = p, stdout = s\<lparr>written := written s @ (if accepting s then txt else [])\<rparr>\<rparr>)"
    by (rule MYPRINTF_any_stream)
qed

theorem calls_repeatable_witness:
  "MYLOG exact_platform \<lparr>param = \<lparr>param_x = 1\<rparr>, stdout = fresh_stdout\<rparr> =
     Returns (0, \<lparr>param = \<lparr>param_x = 1\<rparr>,
                  stdout = \<lparr>written = ''Calling log with 1'' @ [newline] @ ''result :  0'' @ [newline],
                            accepting = True\<rparr>\<rparr>) \<and>
   MYLOG exact_platform
        \<lparr>param = \<lparr>param_x = 1\<rparr>,
         stdout = \<lparr>written = ''Calling log with 1'' @ [newline] @ ''result :  0'' @ [newline],
                   accepting = True\<rparr>\<rparr> =
     Returns (0, \<lparr>param = \<lparr>param_x = 1\<rparr>,
                  stdout = \<lparr>written = (''Calling log with 1'' @ [newline] @ ''result :  0'' @ [newline]) @
                                      (''Calling log with 1'' @ [newline] @ ''result :  0'' @ [newline]),
                            accepting = True\<rparr>\<rparr>) \<and>
   c_string (param_text \<lparr>param_text = text_of ''%d items'', param_value = 12\<rparr>) = Returns ''%d items'' \<and>
   expand ''%d items'' [12] = Returns ''12 items'' \<and>
   MYPRINTF \<lparr>param = \<lparr>param_text = text_of ''%d items'', param_value = 12\<rparr>, stdout = fresh_stdout\<rparr> =
     Returns (8, \<lparr>param = \<lparr>param_text = text_of ''%d items'', param_value = 12\<rparr>,
                  stdout = \<lparr>written = ''12 items'', accepting = True\<rparr>\<rparr>) \<and>
   MYPRINTF \<lparr>param = \<lparr>param_text = text_of ''%d items'', param_value = 12\<rparr>,
             stdout = \<lparr>written = ''12 items'', accepting = True\<rparr>\<rparr> =
     Returns (8, \<lparr>param = \<lparr>param_text = text_of ''%d items'', param_value = 12\<rparr>,
                  stdout = \<lparr>written = ''12 items'' @ ''12 items'', accepting = True\<rparr>\<rparr>)"
proof -
  let ?lq = "\<lparr>param_x = 1\<rparr>"
  let ?rq = "\<lparr>param_text = text_of ''%d items'', param_value = 12\<rparr>"
  let ?line = "''Calling log with 1'' @ [newline] @ ''result :  0'' @ [newline]"
  let ?s1 = "\<lparr>written = ?line, accepting = True\<rparr>"
  let ?t1 = "\<lparr>written = ''12 items'', accepting = True\<rparr>"
  have c: "c_string (param_text ?rq) = Returns ''%d items''"
    by (simp add: c_string_text_of NUL_def text_capacity_def)
  have e: "expand ''%d items'' [param_value ?rq] = Returns ''12 items''"
    by (simp add: expand_items)
  have l: "length ''12 items'' < 2 ^ 31" by simp
  note rep = calls_repeatable [of exact_platform ?lq ?rq "''%d items''" "''12 items''"]
  from rep obtain r out where
    g: "\<And>s. MYLOG exact_platform \<lparr>param = ?lq, stdout = s\<rparr> =
       Returns (r, \<lparr>param = ?lq, stdout = s\<lparr>written := written s @ (if accepting s then out else [])\<rparr>\<rparr>)"
    by blast
  from g [of fresh_stdout] MYLOG_one have r: "r = 0" and out: "out = ?line"
    by (simp_all add: fresh_stdout_def)
  from g [of ?s1] r out
  have l2: "MYLOG exact_platform \<lparr>param = ?lq, stdout = ?s1\<rparr> =
      Returns (0, \<lparr>param = ?lq, stdout = \<lparr>written = ?line @ ?line, accepting = True\<rparr>\<rparr>)"
    by simp
  from rep c e l
  have h: "\<And>s. MYPRINTF \<lparr>param = ?rq, stdout = s\<rparr> =
         Returns (if accepting s then word_of_nat (length ''12 items'') else - 1,
                  \<lparr>param = ?rq, stdout = s\<lparr>written := written s @ (if accepting s then ''12 items'' else [])\<rparr>\<rparr>)"
    by blast
  from h [of fresh_stdout]
  have p1: "MYPRINTF \<lparr>param = ?rq, stdout = fresh_stdout\<rparr> = Returns (8, \<lparr>param = ?rq, stdout = ?t1\<rparr>)"
    by (simp add: fresh_stdout_def)
  from h [of ?t1]
  have p2: "MYPRINTF \<lparr>param = ?rq, stdout = ?t1\<rparr> =
      Returns (8, \<lparr>param = ?rq, stdout = \<lparr>written = ''12 items'' @ ''12 items'', accepting = True\<rparr>\<rparr>)"
    by simp
  from MYLOG_one l2 c expand_items p1 p2 show ?thesis by (intro conjI)
qed

text \<open>
  C7 as stated fails for \<open>MYPRINTF\<close>: for the template \<^verbatim>\<open>%d %d\<close> and the value 1 the
  behaviour of every call is undefined, on whatever stream, so nothing makes two calls
  with this input return or write the same.
\<close>

theorem MYPRINTF_undefined_on_every_call:
  "\<forall>s. MYPRINTF \<lparr>param = \<lparr>param_text = text_of ''%d %d'', param_value = 1\<rparr>, stdout = s\<rparr>
     = Undefined MissingArgument"
proof
  fix s
  let ?st = "\<lparr>param = \<lparr>param_text = text_of ''%d %d'', param_value = 1\<rparr>, stdout = s\<rparr>"
  have "c_string (param_text (param ?st)) = Returns ''%d %d''"
    by (rule c_string_literal) (simp_all add: NUL_def text_capacity_def)
  moreover have "expand ''%d %d'' [param_value (param ?st)] = Undefined MissingArgument"
    by (rule expand_two)
  ultimately show "MYPRINTF ?st = Undefined MissingArgument" by (rule MYPRINTF_undefined)
qed



text \<open>
  C9, as the code has it. A \<open>MYPRINTF_interface\<close> is determined by its two fields,
  the text and the value, and the text is an array of exactly 81 bytes. When one of the
  81 bytes is the terminator, the template that \<open>MYPRINTF\<close> passes to
  \<^verbatim>\<open>printf\<close> has at most 80 characters. \<open>MYPRINTF\<close> checks nothing, however: it
  takes a text without terminator as well, the string then runs past the array, so that it
  has at least 81 characters whatever bytes come after the array, and the behaviour is
  undefined.
\<close>

theorem PrintRequest_shape:
  "length (bytes (param_text p)) = 81 \<and>
   (param_text p = param_text p' \<and> param_value p = param_value p' \<longrightarrow> (p :: MYPRINTF_interface) = p') \<and>
   (NUL \<in> set (bytes (param_text (param st))) \<longrightarrow>
      (\<exists>fmt. c_string (param_text (param st)) = Returns fmt \<and> length fmt \<le> 80 \<and>
         MYPRINTF st = printf fmt [param_value (param st)] st)) \<and>
   (NUL \<notin> set (bytes (param_text (param st))) \<longrightarrow>
      MYPRINTF st = Undefined NotTerminated \<and>
      (\<forall>beyond fmt. c_string_bytes (bytes (param_text (param st)) @ beyond) = Returns fmt \<longrightarrow>
         81 \<le> length fmt))"
proof (intro conjI impI allI)
  show "length (bytes (param_text p)) = 81" by (rule length_bytes)
next
  assume "param_text p = param_text p' \<and> param_value p = param_value p'"
  then show "p = p'" by simp
next
  assume "NUL \<in> set (bytes (param_text (param st)))"
  then obtain fmt where c: "c_string (param_text (param st)) = Returns fmt"
    by (simp add: c_string_def c_string_bytes_def)
  from c_string_length [OF c] MYPRINTF_printf [OF c] c
  show "\<exists>fmt. c_string (param_text (param st)) = Returns fmt \<and> length fmt \<le> 80 \<and>
      MYPRINTF st = printf fmt [param_value (param st)] st"
    by blast
next
  assume "NUL \<notin> set (bytes (param_text (param st)))"
  then show "MYPRINTF st = Undefined NotTerminated" by (rule MYPRINTF_not_terminated)
next
  fix beyond fmt
  assume "NUL \<notin> set (bytes (param_text (param st)))"
    and "c_string_bytes (bytes (param_text (param st)) @ beyond) = Returns fmt"
  from c_string_bytes_prefix [OF this] show "81 \<le> length fmt"
    by (simp add: length_bytes)
qed

theorem PrintRequest_shape_witness:
  "length (bytes (param_text \<lparr>param_text = text_of ''%d items'', param_value = 12\<rparr>)) = 81 \<and>
   NUL \<in> set (bytes (param_text (param \<lparr>param = \<lparr>param_text = text_of ''%d items'', param_value = 12\<rparr>,
                                          stdout = fresh_stdout\<rparr>))) \<and>
   c_string (param_text (param \<lparr>param = \<lparr>param_text = text_of ''%d items'', param_value = 12\<rparr>,
                                  stdout = fresh_stdout\<rparr>)) = Returns ''%d items'' \<and>
   MYPRINTF \<lparr>param = \<lparr>param_text = text_of ''%d items'', param_value = 12\<rparr>, stdout = fresh_stdout\<rparr> =
     printf ''%d items'' [12] \<lparr>param = \<lparr>param_text = text_of ''%d items'', param_value = 12\<rparr>,
                                stdout = fresh_stdout\<rparr> \<and>
   NUL \<notin> set (bytes (param_text (param \<lparr>param = \<lparr>param_text = text_of (replicate 81 CHR ''A''), param_value = 0\<rparr>,
                                          stdout = fresh_stdout\<rparr>))) \<and>
   MYPRINTF \<lparr>param = \<lparr>param_text = text_of (replicate 81 CHR ''A''), param_value = 0\<rparr>, stdout = fresh_stdout\<rparr>
     = Undefined NotTerminated"
proof -
  let ?a = "\<lparr>param = \<lparr>param_text = text_of ''%d items'', param_value = 12\<rparr>, stdout = fresh_stdout\<rparr>"
  let ?b = "\<lparr>param = \<lparr>param_text = text_of (replicate 81 CHR ''A''), param_value = 0\<rparr>, stdout = fresh_stdout\<rparr>"
  have c: "c_string (param_text (param ?a)) = Returns ''%d items''"
    by (rule c_string_literal) (simp_all add: NUL_def text_capacity_def)
  then have na: "NUL \<in> set (bytes (param_text (param ?a)))"
    by (rule c_string_terminated)
  from PrintRequest_shape [of _ _ ?a] na obtain fmt where
    "c_string (param_text (param ?a)) = Returns fmt"
    and m: "MYPRINTF ?a = printf fmt [param_value (param ?a)] ?a"
    by blast
  with c have "fmt = ''%d items''" by simp
  with m have ra: "MYPRINTF ?a = printf ''%d items'' [12] ?a" by simp
  have "bytes (text_of (replicate 81 CHR ''A'')) = replicate 81 CHR ''A''"
    by (rule bytes_text_of_full) (simp add: text_capacity_def)
  then have nb: "NUL \<notin> set (bytes (param_text (param ?b)))"
    by (simp add: NUL_def)
  from PrintRequest_shape [of _ _ ?b] nb have rb: "MYPRINTF ?b = Undefined NotTerminated"
    by blast
  from PrintRequest_shape [of "\<lparr>param_text = text_of ''%d items'', param_value = 12\<rparr>"]
  have len: "length (bytes (param_text \<lparr>param_text = text_of ''%d items'', param_value = 12\<rparr>)) = 81"
    by blast
  from len na c ra nb rb show ?thesis by (intro conjI)
qed

text \<open>
  C9 as stated fails: \<open>MYPRINTF\<close> takes a text of 81 letters, which holds no
  terminator. The call is not rejected, its behaviour is undefined; and when a zero
  byte follows the array, the template that \<^verbatim>\<open>printf\<close> reads has 81 characters.
\<close>

theorem MYPRINTF_template_of_81_characters:
  "NUL \<notin> set (bytes (text_of (replicate 81 CHR ''A''))) \<and>
   MYPRINTF \<lparr>param = \<lparr>param_text = text_of (replicate 81 CHR ''A''), param_value = 0\<rparr>, stdout = fresh_stdout\<rparr>
     = Undefined NotTerminated \<and>
   c_string_bytes (bytes (text_of (replicate 81 CHR ''A'')) @ [NUL]) = Returns (replicate 81 CHR ''A'') \<and>
   length (replicate 81 CHR ''A'') = 81"
proof -
  let ?b = "\<lparr>param = \<lparr>param_text = text_of (replicate 81 CHR ''A''), param_value = 0\<rparr>, stdout = fresh_stdout\<rparr>"
  have b: "bytes (text_of (replicate 81 CHR ''A'')) = replicate 81 CHR ''A''"
    by (rule bytes_text_of_full) (simp add: text_capacity_def)
  have n: "NUL \<notin> set (replicate 81 CHR ''A'')" by (simp add: NUL_def)
  from n b have n': "NUL \<notin> set (bytes (param_text (param ?b)))" by simp
  then have u: "MYPRINTF ?b = Undefined NotTerminated" by (rule MYPRINTF_not_terminated)
  from n have "c_string_bytes (replicate 81 CHR ''A'' @ [NUL]) = Returns (replicate 81 CHR ''A'')"
    by (rule c_string_bytes_terminated)
  with b n u show ?thesis by simp
qed

text \<open>
  C10. For a template without \<^verbatim>\<open>%\<close>, what \<open>MYPRINTF\<close> writes and returns does
  not depend on the value field: whatever the value, it writes the template as it is and
  returns its length (or writes nothing and returns \<open>- 1\<close> when the stream fails).
\<close>

theorem MYPRINTF_value_ignored:
  assumes "c_string (param_text (param st)) = Returns fmt" and "CHR ''%'' \<notin> set fmt"
  shows "\<exists>n s'. (\<forall>v. MYPRINTF (st\<lparr>param := (param st)\<lparr>param_value := v\<rparr>\<rparr>) =
                       Returns (n, st\<lparr>param := (param st)\<lparr>param_value := v\<rparr>, stdout := s'\<rparr>)) \<and>
           n = (if accepting (stdout st) then word_of_nat (length fmt) else - 1) \<and>
           s' = (stdout st)\<lparr>written := written (stdout st) @ (if accepting (stdout st) then fmt else [])\<rparr>"
proof -
  have "MYPRINTF (st\<lparr>param := (param st)\<lparr>param_value := v\<rparr>\<rparr>) =
      Returns (if accepting (stdout st) then word_of_nat (length fmt) else - 1,
        st\<lparr>param := (param st)\<lparr>param_value := v\<rparr>,
           stdout := (stdout st)\<lparr>written := written (stdout st) @ (if accepting (stdout st) then fmt else [])\<rparr>\<rparr>)" for v
  proof -
    let ?st = "st\<lparr>param := (param st)\<lparr>param_value := v\<rparr>\<rparr>"
    have c: "c_string (param_text (param ?st)) = Returns fmt" using assms(1) by simp
    have e: "expand fmt [param_value (param ?st)] = Returns fmt"
      using assms(2) by (rule expand_no_directive)
    have l: "length fmt < 2 ^ 31"
      using c_string_length [OF assms(1)] by simp
    from MYPRINTF_run [OF c e l] show ?thesis by simp
  qed
  then show ?thesis by blast
qed

theorem MYPRINTF_value_ignored_witness:
  "c_string (param_text (param \<lparr>param = \<lparr>param_text = text_of ''done'', param_value = 0\<rparr>, stdout = fresh_stdout\<rparr>))
     = Returns ''done'' \<and>
   CHR ''%'' \<notin> set ''done'' \<and>
   (\<forall>v. MYPRINTF \<lparr>param = \<lparr>param_text = text_of ''done'', param_value = v\<rparr>, stdout = fresh_stdout\<rparr> =
      Returns (4, \<lparr>param = \<lparr>param_text = text_of ''done'', param_value = v\<rparr>,
                   stdout = \<lparr>written = ''done'', accepting = True\<rparr>\<rparr>))"
proof -
  let ?st = "\<lparr>param = \<lparr>param_text = text_of ''done'', param_value = 0\<rparr>, stdout = fresh_stdout\<rparr>"
  have c: "c_string (param_text (param ?st)) = Returns ''done''"
    by (rule c_string_literal) (simp_all add: NUL_def text_capacity_def)
  have d: "CHR ''%'' \<notin> set ''done''" by simp
  from MYPRINTF_value_ignored [OF c d]
  have "\<forall>v. MYPRINTF \<lparr>param = \<lparr>param_text = text_of ''done'', param_value = v\<rparr>, stdout = fresh_stdout\<rparr> =
      Returns (4, \<lparr>param = \<lparr>param_text = text_of ''done'', param_value = v\<rparr>,
                   stdout = \<lparr>written = ''done'', accepting = True\<rparr>\<rparr>)"
    by (simp add: fresh_stdout_def)
  with c d show ?thesis by (intro conjI)
qed


end
